theory Spec2Isabelle
  imports Main "HOL-Library.Char_ord" "HOL-Library.AList"
begin

section \<open>Strings\<close>

text \<open>
  A Python \<open>str\<close> is a sequence of code points.  It is modelled as a \<open>string\<close>, a list
  of \<open>char\<close>, each \<open>char\<close> standing for one code point in the range 0..255; larger
  code points are outside the model.  Every string function below works position by
  position, as the Python one does.  A byte string is a list of \<open>char\<close> as well.
\<close>

type_synonym bytes = "char list"

subsection \<open>Methods of \<open>str\<close>\<close>

text \<open>\<open>s.startswith(p)\<close> and \<open>s.endswith(p)\<close>.\<close>

definition startswith :: "string \<Rightarrow> string \<Rightarrow> bool" where
  "startswith s p \<longleftrightarrow> take (length p) s = p"

definition endswith :: "string \<Rightarrow> string \<Rightarrow> bool" where
  "endswith s p \<longleftrightarrow> startswith (rev s) (rev p)"

text \<open>
  \<open>s.strip(chars)\<close>: the longest prefix and the longest suffix made of characters of
  \<open>chars\<close> are removed.
\<close>

definition py_lstrip :: "string \<Rightarrow> string \<Rightarrow> string" where
  "py_lstrip chars s = dropWhile (\<lambda>c. c \<in> set chars) s"

definition py_rstrip :: "string \<Rightarrow> string \<Rightarrow> string" where
  "py_rstrip chars s = rev (dropWhile (\<lambda>c. c \<in> set chars) (rev s))"

definition py_strip :: "string \<Rightarrow> string \<Rightarrow> string" where
  "py_strip chars s = py_rstrip chars (py_lstrip chars s)"

text \<open>
  \<open>s.strip()\<close> removes white space at both ends.  The code points below 256 for which
  \<open>str.isspace\<close> holds are 9..13, 28..32, 133 and 160.
\<close>

definition whitespace :: string where
  "whitespace = [CHR 0x09, CHR 0x0A, CHR 0x0B, CHR 0x0C, CHR 0x0D, CHR 0x1C, CHR 0x1D,
                 CHR 0x1E, CHR 0x1F, CHR 0x20, CHR 0x85, CHR 0xA0]"

definition py_strip_ws :: "string \<Rightarrow> string" where
  "py_strip_ws s = py_strip whitespace s"

text \<open>
  \<open>s.lower()\<close>, character by character: the upper-case letters below 256 are \<open>A\<close>..\<open>Z\<close>
  and the code points 192..222 without 215; each is 32 below its lower-case letter.
\<close>

definition upper_letters :: string where
  "upper_letters = ''ABCDEFGHIJKLMNOPQRSTUVWXYZ'' @
     [CHR 0xC0, CHR 0xC1, CHR 0xC2, CHR 0xC3, CHR 0xC4, CHR 0xC5, CHR 0xC6, CHR 0xC7,
      CHR 0xC8, CHR 0xC9, CHR 0xCA, CHR 0xCB, CHR 0xCC, CHR 0xCD, CHR 0xCE, CHR 0xCF,
      CHR 0xD0, CHR 0xD1, CHR 0xD2, CHR 0xD3, CHR 0xD4, CHR 0xD5, CHR 0xD6,
      CHR 0xD8, CHR 0xD9, CHR 0xDA, CHR 0xDB, CHR 0xDC, CHR 0xDD, CHR 0xDE]"

definition lower_letters :: string where
  "lower_letters = ''abcdefghijklmnopqrstuvwxyz'' @
     [CHR 0xE0, CHR 0xE1, CHR 0xE2, CHR 0xE3, CHR 0xE4, CHR 0xE5, CHR 0xE6, CHR 0xE7,
      CHR 0xE8, CHR 0xE9, CHR 0xEA, CHR 0xEB, CHR 0xEC, CHR 0xED, CHR 0xEE, CHR 0xEF,
      CHR 0xF0, CHR 0xF1, CHR 0xF2, CHR 0xF3, CHR 0xF4, CHR 0xF5, CHR 0xF6,
      CHR 0xF8, CHR 0xF9, CHR 0xFA, CHR 0xFB, CHR 0xFC, CHR 0xFD, CHR 0xFE]"

definition lower_char :: "char \<Rightarrow> char" where
  "lower_char c = (case map_of (zip upper_letters lower_letters) c of Some l \<Rightarrow> l | None \<Rightarrow> c)"

definition py_lower :: "string \<Rightarrow> string" where
  "py_lower s = map lower_char s"

text \<open>
  \<open>s.split(c)[0]\<close> and \<open>s.split(c, 1)[0]\<close>: the part before the first \<open>c\<close>, the whole
  string when there is none.  \<open>s.split(c, 1)[1]\<close>: the part after the first \<open>c\<close>, read
  only when \<open>c\<close> occurs in \<open>s\<close>.
\<close>

definition before_first :: "char \<Rightarrow> string \<Rightarrow> string" where
  "before_first c s = takeWhile (\<lambda>x. x \<noteq> c) s"

definition after_first :: "char \<Rightarrow> string \<Rightarrow> string" where
  "after_first c s = drop 1 (dropWhile (\<lambda>x. x \<noteq> c) s)"

text \<open>\<open>s.rfind(c)\<close>: the index of the last \<open>c\<close> in \<open>s\<close>, or \<open>-1\<close>.\<close>

fun rfind_from :: "char \<Rightarrow> string \<Rightarrow> int \<Rightarrow> int \<Rightarrow> int" where
  "rfind_from c [] i found = found"
| "rfind_from c (x # xs) i found = rfind_from c xs (i + 1) (if x = c then i else found)"

definition py_rfind :: "string \<Rightarrow> char \<Rightarrow> int" where
  "py_rfind s c = rfind_from c s 0 (- 1)"

text \<open>The slice \<open>s[i:j]\<close> for indices that are not negative.\<close>

definition py_slice :: "string \<Rightarrow> int \<Rightarrow> int \<Rightarrow> string" where
  "py_slice s i j = take (nat j - nat i) (drop (nat i) s)"

text \<open>The decimal digits of a natural number, as \<open>f"{i}"\<close> writes them.\<close>

definition digit_char :: "nat \<Rightarrow> char" where
  "digit_char d = ''0123456789'' ! d"

fun str_nat :: "nat \<Rightarrow> string" where
  "str_nat n = (if n < 10 then [digit_char n] else str_nat (n div 10) @ [digit_char (n mod 10)])"

declare str_nat.simps [simp del]

subsection \<open>Exceptions\<close>

text \<open>
  The exceptions the program meets.  \<open>HTTPError\<close> carries the status code of its response.
  \<open>RequestException\<close> stands for the exceptions of the HTTP client that are none of the
  three before it, \<open>OtherException\<close> for any further subclass of \<open>Exception\<close>.
  \<open>KeyboardInterrupt\<close> is no subclass of \<open>Exception\<close>.
\<close>

datatype py_exception =
    HTTPError nat
  | Timeout
  | ConnectionError
  | RequestException
  | OSError
  | ValueError
  | OtherException
  | KeyboardInterrupt

fun is_Exception :: "py_exception \<Rightarrow> bool" where
  "is_Exception KeyboardInterrupt = False"
| "is_Exception e = True"

section \<open>The filename resolver\<close>

subsection \<open>\<open>sanitize_filename\<close>\<close>

text \<open>
  \<^verbatim>\<open>
  def sanitize_filename(name: str) -> str:
      safe = re.sub(r"[^A-Za-z0-9._-]", "_", name)
      return safe.strip("._-") or "file"
  \<close>
  The character class \<open>[A-Za-z0-9._-]\<close>: three ranges and three single characters.
\<close>

definition safe_char :: "char \<Rightarrow> bool" where
  "safe_char c \<longleftrightarrow>
     (CHR ''A'' \<le> c \<and> c \<le> CHR ''Z'') \<or> (CHR ''a'' \<le> c \<and> c \<le> CHR ''z'') \<or>
     (CHR ''0'' \<le> c \<and> c \<le> CHR ''9'') \<or> c = CHR ''.'' \<or> c = CHR ''_'' \<or> c = CHR ''-''"

text \<open>\<open>re.sub(r"[^A-Za-z0-9._-]", "_", name)\<close>: each character outside the class becomes \<open>_\<close>.\<close>

definition re_sub_unsafe :: "string \<Rightarrow> string" where
  "re_sub_unsafe name = map (\<lambda>c. if safe_char c then c else CHR ''_'') name"

definition sanitize_filename :: "string \<Rightarrow> string" where
  "sanitize_filename name =
     (let safe = re_sub_unsafe name;
          stripped = py_strip ''._-'' safe
      in if stripped \<noteq> [] then stripped else ''file'')"

text \<open>A string matches \<open>^[A-Za-z0-9._-]+$\<close> when it is not empty and every character is in the class.\<close>

definition matches_safe_name :: "string \<Rightarrow> bool" where
  "matches_safe_name s \<longleftrightarrow> s \<noteq> [] \<and> list_all safe_char s"

subsection \<open>\<open>os.path\<close>\<close>

text \<open>
  The functions of the standard library's \<open>posixpath\<close> that the program calls.
  \<^verbatim>\<open>
  def join(a, *p):
      path = a
      for b in p:
          if b.startswith(sep): path = b
          elif not path or path.endswith(sep): path += b
          else: path += sep + b
      return path
  \<close>
\<close>

definition path_join :: "string \<Rightarrow> string \<Rightarrow> string" where
  "path_join a b =
     (if startswith b ''/'' then b
      else if a = [] \<or> endswith a ''/'' then a @ b
      else a @ ''/'' @ b)"

text \<open>
  \<^verbatim>\<open>
  def basename(p):
      i = p.rfind(sep) + 1
      return p[i:]
  \<close>
\<close>

definition basename :: "string \<Rightarrow> string" where
  "basename p = drop (nat (py_rfind p (CHR ''/'') + 1)) p"

text \<open>
  \<^verbatim>\<open>
  def _splitext(p, sep, altsep, extsep):
      sepIndex = p.rfind(sep)
      dotIndex = p.rfind(extsep)
      if dotIndex > sepIndex:
          filenameIndex = sepIndex + 1
          while filenameIndex < dotIndex:
              if p[filenameIndex:filenameIndex+1] != extsep:
                  return p[:dotIndex], p[dotIndex:]
              filenameIndex += 1
      return p, p[:0]
  \<close>
  The loop looks for a character other than the dot in \<open>p[sepIndex+1:dotIndex]\<close>.
\<close>

definition splitext :: "string \<Rightarrow> string \<times> string" where
  "splitext p =
     (let sepIndex = py_rfind p (CHR ''/'');
          dotIndex = py_rfind p (CHR ''.'')
      in if dotIndex > sepIndex \<and>
            list_ex (\<lambda>c. c \<noteq> CHR ''.'') (py_slice p (sepIndex + 1) dotIndex)
         then (take (nat dotIndex) p, drop (nat dotIndex) p)
         else (p, []))"

subsection \<open>\<open>urllib.parse.urlparse\<close>\<close>

text \<open>
  The path component that \<open>urlparse(url).path\<close> of the standard library computes, or
  the \<open>ValueError\<close> it raises.  \<open>urlsplit\<close> strips leading control characters and
  spaces, removes tab, carriage return and line feed, splits off the scheme, then the
  network location after \<open>//\<close>, the fragment after \<open>#\<close> and the query after \<open>?\<close>;
  \<open>urlparse\<close> then splits the parameters after \<open>;\<close> off the last path segment.
  The library's check of a bracketed host and of a network location that is not ASCII is
  a parameter, \<open>host_valid\<close>.
\<close>

definition c0_control_or_space :: "char \<Rightarrow> bool" where
  "c0_control_or_space c \<longleftrightarrow> c \<le> CHR 0x20"

definition ascii_alpha :: "char \<Rightarrow> bool" where
  "ascii_alpha c \<longleftrightarrow> (CHR ''A'' \<le> c \<and> c \<le> CHR ''Z'') \<or> (CHR ''a'' \<le> c \<and> c \<le> CHR ''z'')"

definition scheme_chars :: string where
  "scheme_chars = ''abcdefghijklmnopqrstuvwxyz'' @ ''ABCDEFGHIJKLMNOPQRSTUVWXYZ'' @
                  ''0123456789'' @ ''+-.''"

definition uses_params :: "string list" where
  "uses_params = ['''', ''ftp'', ''hdl'', ''prospero'', ''http'', ''imap'',
                  ''https'', ''shttp'', ''rtsp'', ''rtsps'', ''rtspu'', ''sip'',
                  ''sips'', ''mms'', ''sftp'', ''tel'']"

definition is_ascii :: "char \<Rightarrow> bool" where
  "is_ascii c \<longleftrightarrow> c \<le> CHR 0x7F"

text \<open>
  \<^verbatim>\<open>
  i = url.find(':')
  if i > 0 and url[0].isascii() and url[0].isalpha():
      for c in url[:i]:
          if c not in scheme_chars: break
      else:
          scheme, url = url[:i].lower(), url[i+1:]
  \<close>
\<close>

definition split_scheme :: "string \<Rightarrow> string \<times> string" where
  "split_scheme url =
     (let head = before_first (CHR '':'') url
      in if CHR '':'' \<in> set url \<and> head \<noteq> [] \<and> ascii_alpha (hd url) \<and>
            list_all (\<lambda>c. c \<in> set scheme_chars) head
         then (py_lower head, drop (length head + 1) url)
         else ([], url))"

text \<open>
  \<open>_splitnetloc(url, 2)\<close>: the network location runs from index 2 to the first of
  \<open>/\<close>, \<open>?\<close>, \<open>#\<close>, or to the end.
\<close>

definition splitnetloc :: "string \<Rightarrow> string \<times> string" where
  "splitnetloc url =
     (let rest = drop 2 url
      in (takeWhile (\<lambda>c. c \<notin> set ''/?#'') rest, dropWhile (\<lambda>c. c \<notin> set ''/?#'') rest))"

text \<open>
  \<^verbatim>\<open>
  def _splitparams(url):
      if '/'  in url:
          i = url.find(';', url.rfind('/'))
          if i < 0: return url, ''
      else:
          i = url.find(';')
      return url[:i], url[i+1:]
  \<close>
  Only the first component is modelled; the function is called when \<open>;\<close> is in \<open>url\<close>.
\<close>

definition splitparams :: "string \<Rightarrow> string" where
  "splitparams url =
     (if CHR ''/'' \<in> set url
      then (let r = nat (py_rfind url (CHR ''/''));
                tail = drop r url
            in if CHR '';'' \<in> set tail then take r url @ before_first (CHR '';'') tail else url)
      else before_first (CHR '';'') url)"

text \<open>
  The first steps of \<open>urlsplit\<close>:
  \<^verbatim>\<open>
  url = url.lstrip(_WHATWG_C0_CONTROL_OR_SPACE)
  for b in _UNSAFE_URL_BYTES_TO_REMOVE:
      url = url.replace(b, "")
  \<close>
\<close>

definition url_clean :: "string \<Rightarrow> string" where
  "url_clean url =
     filter (\<lambda>c. c \<notin> set [CHR 0x09, CHR 0x0D, CHR 0x0A]) (dropWhile c0_control_or_space url)"

text \<open>
  \<^verbatim>\<open>
  if url[:2] == '//':
      netloc, url = _splitnetloc(url, 2)
  \<close>
\<close>

definition split_netloc :: "string \<Rightarrow> string \<times> string" where
  "split_netloc url = (if take 2 url = ''//'' then splitnetloc url else ([], url))"

text \<open>
  \<^verbatim>\<open>
  if allow_fragments and '#' in url:
      url, fragment = url.split('#', 1)
  if '?' in url:
      url, query = url.split('?', 1)
  \<close>
\<close>

definition strip_fragment_query :: "string \<Rightarrow> string" where
  "strip_fragment_query url = before_first (CHR ''?'') (before_first (CHR ''#'') url)"

text \<open>
  \<open>urlparse\<close>:
  \<^verbatim>\<open>
  if scheme in uses_params and ';' in url:
      url, params = _splitparams(url)
  \<close>
\<close>

definition strip_params :: "string \<Rightarrow> string \<Rightarrow> string" where
  "strip_params scheme url =
     (if scheme \<in> set uses_params \<and> CHR '';'' \<in> set url then splitparams url else url)"

definition urlparse_path :: "(string \<Rightarrow> bool) \<Rightarrow> string \<Rightarrow> py_exception + string" where
  "urlparse_path host_valid url =
     (let (scheme, url3) = split_scheme (url_clean url);
          (netloc, url4) = split_netloc url3;
          lb = (CHR ''['' \<in> set netloc);
          rb = (CHR '']'' \<in> set netloc)
      in if (lb \<and> \<not> rb) \<or> (rb \<and> \<not> lb) then Inl ValueError
         else if lb \<and> rb \<and> \<not> host_valid netloc then Inl ValueError
         else (let url6 = strip_fragment_query url4
               in if netloc \<noteq> [] \<and> \<not> list_all is_ascii netloc \<and> \<not> host_valid netloc
                  then Inl ValueError
                  else Inr (strip_params scheme url6)))"

subsection \<open>\<open>filename_from_url\<close>\<close>

text \<open>
  \<^verbatim>\<open>
  def filename_from_url(url: str) -> str or None:
      parsed = urllib.parse.urlparse(url)
      base = os.path.basename(parsed.path)
      if base:
          return sanitize_filename(base)
      return None
  \<close>
\<close>

definition filename_from_url :: "(string \<Rightarrow> bool) \<Rightarrow> string \<Rightarrow> py_exception + string option" where
  "filename_from_url host_valid url =
     (case urlparse_path host_valid url of
        Inl e \<Rightarrow> Inl e
      | Inr path \<Rightarrow>
          (let base = basename path
           in if base \<noteq> [] then Inr (Some (sanitize_filename base)) else Inr None))"

subsection \<open>\<open>extension_from_content_type\<close>\<close>

text \<open>
  \<^verbatim>\<open>
  def extension_from_content_type(content_type: str) -> str:
      if not content_type:
          return ""
      main_type = content_type.split(";")[0].strip().lower()
      ext = mimetypes.guess_extension(main_type)
      if ext:
          return ext
      if main_type.startswith("image/"):
          return "." + main_type.split("/", 1)[1]
      return ""
  \<close>
  The table of \<open>mimetypes.guess_extension\<close> depends on the installation; it is the
  parameter \<open>guess_extension\<close>, \<open>None\<close> where the table has no entry.
\<close>

definition main_type_of :: "string \<Rightarrow> string" where
  "main_type_of content_type = py_lower (py_strip_ws (before_first (CHR '';'') content_type))"

definition extension_from_content_type :: "(string \<Rightarrow> string option) \<Rightarrow> string \<Rightarrow> string" where
  "extension_from_content_type guess_extension content_type =
     (if content_type = [] then []
      else (let main_type = main_type_of content_type
            in case guess_extension main_type of
                 Some (c # cs) \<Rightarrow> c # cs
               | _ \<Rightarrow> if startswith main_type ''image/''
                      then ''.'' @ after_first (CHR ''/'') main_type
                      else []))"

subsection \<open>\<open>unique_filepath\<close>\<close>

text \<open>
  The file system: the paths that exist, each with the contents of its file, and the
  paths that the operating system refuses to open for writing.  \<open>os.path.exists\<close>
  holds for the paths with an entry.
\<close>

record filesystem =
  entries :: "(string \<times> bytes) list"
  unwritable :: "string list"

definition path_exists :: "filesystem \<Rightarrow> string \<Rightarrow> bool" where
  "path_exists fs p \<longleftrightarrow> p \<in> set (map fst (entries fs))"

text \<open>
  \<^verbatim>\<open>
  def unique_filepath(directory: str, filename: str) -> str:
      base, ext = os.path.splitext(filename)
      candidate = filename
      i = 1
      while os.path.exists(os.path.join(directory, candidate)):
          candidate = f"{base}_{i}{ext}"
          i += 1
      return os.path.join(directory, candidate)
  \<close>
\<close>

definition numbered :: "string \<Rightarrow> nat \<Rightarrow> string \<Rightarrow> string" where
  "numbered base i ext = base @ ''_'' @ str_nat i @ ext"

function unique_loop ::
  "filesystem \<Rightarrow> string \<Rightarrow> string \<Rightarrow> string \<Rightarrow> string \<Rightarrow> nat \<Rightarrow> string" where
  "unique_loop fs directory base ext candidate i =
     (if path_exists fs (path_join directory candidate)
      then unique_loop fs directory base ext (numbered base i ext) (i + 1)
      else path_join directory candidate)"
  by pat_completeness auto

definition unique_filepath :: "filesystem \<Rightarrow> string \<Rightarrow> string \<Rightarrow> string" where
  "unique_filepath fs directory filename =
     (case splitext filename of
        (base, ext) \<Rightarrow> unique_loop fs directory base ext filename 1)"

subsection \<open>\<open>generate_filename\<close>\<close>

text \<open>
  \<^verbatim>\<open>
  def generate_filename(ext: str = "") -> str:
      name = f"image_{uuid.uuid4().hex}"
      if ext and not ext.startswith("."):
          ext = "." + ext
      return name + (ext or "")
  \<close>
  The random identifier \<open>uuid.uuid4().hex\<close> is the parameter \<open>hex\<close>.
\<close>

definition generate_filename :: "string \<Rightarrow> string \<Rightarrow> string" where
  "generate_filename hex ext =
     (let name = ''image_'' @ hex;
          ext' = (if ext \<noteq> [] \<and> \<not> startswith ext ''.'' then ''.'' @ ext else ext)
      in name @ ext')"

section \<open>The streaming downloader\<close>

text \<open>
  What the HTTP client hands over for a request: an exception, or a response with its
  status code, its \<open>Content-Type\<close> header if it has one, the chunks that
  \<open>iter_content(CHUNK_SIZE)\<close> yields, and the exception that ends the iteration early
  if there is one.
\<close>

definition CHUNK_SIZE :: nat where
  "CHUNK_SIZE = 8192"

record response =
  status_code :: nat
  content_type :: "string option"
  body :: "bytes list"
  body_error :: "py_exception option"

text \<open>\<open>resp.headers.get("Content-Type", "")\<close>\<close>

definition header_content_type :: "response \<Rightarrow> string" where
  "header_content_type resp = (case content_type resp of Some v \<Rightarrow> v | None \<Rightarrow> [])"

text \<open>
  \<open>resp.raise_for_status()\<close> of the HTTP client raises \<open>HTTPError\<close> for the client
  errors 400..499 and the server errors 500..599, and returns for every other status.
\<close>

definition raise_for_status :: "response \<Rightarrow> py_exception option" where
  "raise_for_status resp =
     (if 400 \<le> status_code resp \<and> status_code resp < 600
      then Some (HTTPError (status_code resp)) else None)"

text \<open>
  \<^verbatim>\<open>
  for chunk in resp.iter_content(CHUNK_SIZE):
      if chunk:  # filter out keep-alive chunks
          out_file.write(chunk)
  \<close>
  The open file is the list of the byte strings written to it, in order; its contents
  are their concatenation.
\<close>

fun write_chunks :: "bytes list \<Rightarrow> bytes list \<Rightarrow> bytes list" where
  "write_chunks written [] = written"
| "write_chunks written (chunk # rest) =
     write_chunks (if chunk \<noteq> [] then written @ [chunk] else written) rest"

text \<open>\<open>open(output_path, "wb")\<close> creates the file or empties it, unless the system refuses.\<close>

definition open_wb :: "filesystem \<Rightarrow> string \<Rightarrow> py_exception + filesystem" where
  "open_wb fs p =
     (if p \<in> set (unwritable fs) then Inl OSError
      else Inr (fs\<lparr>entries := AList.update p [] (entries fs)\<rparr>))"

definition file_contents :: "filesystem \<Rightarrow> string \<Rightarrow> bytes option" where
  "file_contents fs p = map_of (entries fs) p"

text \<open>The lines the program prints.\<close>

datatype message =
    Banner
  | No_url
  | Warning_not_image string
  | Saving_to string
  | Cancelled
  | Downloaded string
  | Http_error_msg nat
  | Timeout_msg
  | Connection_msg
  | Network_msg
  | File_msg
  | Unexpected_msg
  | Interrupted

text \<open>
  \<^verbatim>\<open>
  def download_image(url: str, output_path: str, timeout: int = 10) -> None:
      with requests.get(url, stream=True, timeout=timeout) as resp:
          resp.raise_for_status()  # raise HTTPError for bad HTTP status
          content_type = resp.headers.get("Content-Type", "")
          if not content_type.lower().startswith("image/"):
              print(f"Warning: Retrieved content-type is '{content_type}' (not an image).")
          with open(output_path, "wb") as out_file:
              for chunk in resp.iter_content(CHUNK_SIZE):
                  if chunk:  # filter out keep-alive chunks
                      out_file.write(chunk)
  \<close>
  The result: the exception raised, if any, the file system afterwards and the lines printed.
\<close>

definition download_image ::
  "(string \<Rightarrow> py_exception + response) \<Rightarrow> string \<Rightarrow> filesystem \<Rightarrow> string \<Rightarrow>
   py_exception option \<times> filesystem \<times> message list" where
  "download_image http_get url fs output_path =
     (case http_get url of
        Inl e \<Rightarrow> (Some e, fs, [])
      | Inr resp \<Rightarrow>
          (case raise_for_status resp of
             Some e \<Rightarrow> (Some e, fs, [])
           | None \<Rightarrow>
               (let ct = header_content_type resp;
                    printed = (if \<not> startswith (py_lower ct) ''image/''
                               then [Warning_not_image ct] else [])
                in case open_wb fs output_path of
                     Inl e \<Rightarrow> (Some e, fs, printed)
                   | Inr fs1 \<Rightarrow>
                       (let written = write_chunks [] (body resp);
                            fs2 = fs1\<lparr>entries :=
                                    AList.update output_path (concat written) (entries fs1)\<rparr>
                        in (body_error resp, fs2, printed)))))"

section \<open>The program\<close>

definition FETCH_DIR :: string where
  "FETCH_DIR = ''Fetched_Images''"

text \<open>
  What \<open>main\<close> reads from outside: the two lines the user types, the random identifier,
  the table of media types, the library's host check, the exception that
  \<open>os.makedirs\<close> raises if any, and the HTTP client's answers to HEAD and GET.
\<close>

record environment =
  typed_url :: string
  typed_confirm :: string
  uuid4_hex :: string
  types_table :: "string \<Rightarrow> string option"
  host_check :: "string \<Rightarrow> bool"
  makedirs_error :: "py_exception option"
  head_of :: "string \<Rightarrow> py_exception + response"
  get_of :: "string \<Rightarrow> py_exception + response"

text \<open>
  \<^verbatim>\<open>
  try:
      head = requests.head(url, allow_redirects=True, timeout=8)
      head.raise_for_status()
      content_type = head.headers.get("Content-Type", "")
      chosen_ext = extension_from_content_type(content_type)
  except (RequestException, Exception):
      chosen_ext = ""
  \<close>
  The result is \<open>chosen_ext\<close>, or the exception that the handler lets through.
\<close>

definition head_probe ::
  "(string \<Rightarrow> string option) \<Rightarrow> (py_exception + response) \<Rightarrow> py_exception + string" where
  "head_probe table head_result =
     (let attempt =
            (case head_result of
               Inl e \<Rightarrow> Inl e
             | Inr head \<Rightarrow>
                 (case raise_for_status head of
                    Some e \<Rightarrow> Inl e
                  | None \<Rightarrow> Inr (extension_from_content_type table (header_content_type head))))
      in case attempt of
           Inl e \<Rightarrow> if is_Exception e then Inr [] else Inl e
         | Inr chosen_ext \<Rightarrow> Inr chosen_ext)"

text \<open>
  \<^verbatim>\<open>
  if filename:
      if "." not in filename and chosen_ext:
          filename = filename + chosen_ext
  else:
      filename = generate_filename(chosen_ext)
  filename = sanitize_filename(filename)
  \<close>
\<close>

definition choose_filename :: "string option \<Rightarrow> string \<Rightarrow> string \<Rightarrow> string" where
  "choose_filename filename chosen_ext hex =
     sanitize_filename
       (case filename of
          Some f \<Rightarrow>
            if f \<noteq> [] then (if CHR ''.'' \<notin> set f \<and> chosen_ext \<noteq> [] then f @ chosen_ext else f)
            else generate_filename hex chosen_ext
        | None \<Rightarrow> generate_filename hex chosen_ext)"

text \<open>The file name of lines 127 to 150 of \<open>main\<close>, or the exception raised on the way.\<close>

definition resolve_filename :: "environment \<Rightarrow> string \<Rightarrow> py_exception + string" where
  "resolve_filename env url =
     (case filename_from_url (host_check env) url of
        Inl e \<Rightarrow> Inl e
      | Inr filename \<Rightarrow>
          (case head_probe (types_table env) (head_of env url) of
             Inl e \<Rightarrow> Inl e
           | Inr chosen_ext \<Rightarrow> Inr (choose_filename filename chosen_ext (uuid4_hex env))))"

text \<open>
  The handlers around \<open>download_image\<close>, in the order of the source.  The classes of the
  HTTP client are subclasses of \<open>OSError\<close>, so their handlers come first;
  \<open>KeyboardInterrupt\<close> passes them all.
\<close>

fun handle_download_error :: "py_exception \<Rightarrow> py_exception + message" where
  "handle_download_error (HTTPError status) = Inr (Http_error_msg status)"
| "handle_download_error Timeout = Inr Timeout_msg"
| "handle_download_error ConnectionError = Inr Connection_msg"
| "handle_download_error RequestException = Inr Network_msg"
| "handle_download_error OSError = Inr File_msg"
| "handle_download_error ValueError = Inr Unexpected_msg"
| "handle_download_error OtherException = Inr Unexpected_msg"
| "handle_download_error KeyboardInterrupt = Inl KeyboardInterrupt"

text \<open>The outermost handler of \<open>main\<close>: \<open>except KeyboardInterrupt\<close>.\<close>

definition outer_handler ::
  "py_exception \<Rightarrow> filesystem \<Rightarrow> message list \<Rightarrow> py_exception option \<times> filesystem \<times> message list" where
  "outer_handler e fs printed =
     (if e = KeyboardInterrupt then (None, fs, printed @ [Interrupted]) else (Some e, fs, printed))"

text \<open>
  \<open>main\<close>: the exception that leaves it, if any, the file system afterwards and the
  lines printed.  Directories are no entries of the file system, so a successful
  \<open>os.makedirs\<close> leaves it as it is.
\<close>

definition main :: "environment \<Rightarrow> filesystem \<Rightarrow> py_exception option \<times> filesystem \<times> message list" where
  "main env fs =
     (let url = py_strip_ws (typed_url env)
      in if url = [] then (None, fs, [Banner, No_url])
         else case makedirs_error env of
           Some e \<Rightarrow> outer_handler e fs [Banner]
         | None \<Rightarrow>
            (case resolve_filename env url of
               Inl e \<Rightarrow> outer_handler e fs [Banner]
             | Inr filename \<Rightarrow>
                 (let output_path = unique_filepath fs FETCH_DIR filename;
                      confirm = py_lower (py_strip_ws (typed_confirm env))
                  in if confirm = ''n'' then (None, fs, [Banner, Saving_to output_path, Cancelled])
                     else (case download_image (get_of env) url fs output_path of
                             (None, fs', printed) \<Rightarrow>
                               (None, fs', [Banner, Saving_to output_path] @ printed @ [Downloaded output_path])
                           | (Some e, fs', printed) \<Rightarrow>
                               (case handle_download_error e of
                                  Inr m \<Rightarrow> (None, fs', [Banner, Saving_to output_path] @ printed @ [m])
                                | Inl e' \<Rightarrow>
                                    outer_handler e' fs' ([Banner, Saving_to output_path] @ printed))))))"

text \<open>The names that \<open>unique_filepath\<close> is specified to try, in order: the name itself, then the numbered ones.\<close>

definition nth_candidate :: "string \<Rightarrow> nat \<Rightarrow> string" where
  "nth_candidate filename k =
     (if k = 0 then filename
      else case splitext filename of (base, ext) \<Rightarrow> numbered base k ext)"

text \<open>Sample inputs: file systems with the given paths, a directory with \<open>n\<close> numbered names taken.\<close>

definition fs_of :: "string list \<Rightarrow> filesystem" where
  "fs_of ps = \<lparr>entries = map (\<lambda>p. (p, [])) ps, unwritable = []\<rparr>"

definition crowded_dir :: "nat \<Rightarrow> filesystem" where
  "crowded_dir n = fs_of (''d/a.jpg'' # map (\<lambda>i. ''d/a_'' @ str_nat i @ ''.jpg'') [1..<Suc n])"

text \<open>Reading decimal digits back, to tell the numbered names apart.\<close>

definition digit_val :: "char \<Rightarrow> nat" where
  "digit_val c = of_char c - 48"

definition nat_of_digits :: "string \<Rightarrow> nat" where
  "nat_of_digits s = foldl (\<lambda>a c. 10 * a + digit_val c) 0 s"

text \<open>The numbered names from \<open>i\<close> on that exist: the loop of \<open>unique_filepath\<close> has at most these left to pass.\<close>

definition taken_from :: "filesystem \<Rightarrow> string \<Rightarrow> string \<Rightarrow> string \<Rightarrow> nat \<Rightarrow> nat set" where
  "taken_from fs d base ext i = {j. i \<le> j \<and> path_exists fs (path_join d (numbered base j ext))}"

text \<open>Sample parameters: an HTTP client with one fixed answer, a small table of media types, a host check that accepts.\<close>

definition always_respond :: "response \<Rightarrow> string \<Rightarrow> py_exception + response" where
  "always_respond resp url = Inr resp"


definition sample_types :: "string \<Rightarrow> string option" where
  "sample_types = map_of [(''image/jpeg'', ''.jpg''), (''image/png'', ''.png''), (''text/html'', ''.html'')]"

definition any_host :: "string \<Rightarrow> bool" where
  "any_host netloc = True"

text \<open>A sample run: the URL of the scenario, a HEAD request answered with a JPEG content type.\<close>

definition sample_env :: environment where
  "sample_env =
     \<lparr>typed_url = ''https://x/img'', typed_confirm = ''y'',
      uuid4_hex = ''0123456789abcdef0123456789abcdef'',
      types_table = sample_types, host_check = any_host, makedirs_error = None,
      head_of = always_respond \<lparr>status_code = 200, content_type = Some ''image/jpeg'',
                                 body = [], body_error = None\<rparr>,
      get_of = always_respond \<lparr>status_code = 200, content_type = Some ''image/jpeg'',
                                body = [''abc'', [], ''de''], body_error = None\<rparr>\<rparr>"

section \<open>Properties of \<open>sanitize_filename\<close>\<close>

lemma safe_char_strip_chars: "c \<in> set ''._-'' \<Longrightarrow> safe_char c"
  by (auto simp: safe_char_def)

lemma re_sub_unsafe_safe: "list_all safe_char (re_sub_unsafe name)"
  by (induction name) (auto simp: re_sub_unsafe_def safe_char_def)

lemma re_sub_unsafe_id: "list_all safe_char s \<Longrightarrow> re_sub_unsafe s = s"
  by (induction s) (auto simp: re_sub_unsafe_def)

lemma list_all_dropWhile: "list_all P s \<Longrightarrow> list_all P (dropWhile Q s)"
  by (induction s) auto

lemma py_strip_safe: "list_all safe_char s \<Longrightarrow> list_all safe_char (py_strip chars s)"
  by (simp add: py_strip_def py_rstrip_def py_lstrip_def list_all_dropWhile)

lemma dropWhile_hd: "dropWhile P s \<noteq> [] \<Longrightarrow> \<not> P (hd (dropWhile P s))"
  by (metis hd_dropWhile)

lemma dropWhile_fixed: "s = [] \<or> \<not> P (hd s) \<Longrightarrow> dropWhile P s = s"
  by (cases s) auto

lemma rev_dropWhile_rev_hd:
  assumes "rev (dropWhile P (rev l)) \<noteq> []"
  shows "hd (rev (dropWhile P (rev l))) = hd l"
proof -
  have "rev (takeWhile P (rev l) @ dropWhile P (rev l)) = l"
    by (simp only: takeWhile_dropWhile_id rev_rev_ident)
  then have "rev (dropWhile P (rev l)) @ rev (takeWhile P (rev l)) = l"
    by (simp only: rev_append)
  then have "hd l = hd (rev (dropWhile P (rev l)) @ rev (takeWhile P (rev l)))"
    by (rule arg_cong [OF sym])
  also have "\<dots> = hd (rev (dropWhile P (rev l)))"
    using assms by (rule hd_append2)
  finally show ?thesis by (rule sym)
qed

lemma rev_dropWhile_rev_ne: "rev (dropWhile P (rev l)) \<noteq> [] \<Longrightarrow> l \<noteq> []"
  by auto

lemma py_strip_hd:
  assumes "py_strip chars s \<noteq> []"
  shows "hd (py_strip chars s) \<notin> set chars"
proof -
  let ?P = "\<lambda>c. c \<in> set chars"
  let ?l = "dropWhile ?P s"
  have eq: "py_strip chars s = rev (dropWhile ?P (rev ?l))"
    by (simp add: py_strip_def py_rstrip_def py_lstrip_def)
  with assms have ne: "rev (dropWhile ?P (rev ?l)) \<noteq> []"
    by simp
  then have "?l \<noteq> []"
    by (rule rev_dropWhile_rev_ne)
  then have "\<not> ?P (hd ?l)"
    by (rule dropWhile_hd)
  moreover have "hd (py_strip chars s) = hd ?l"
    unfolding eq using ne by (rule rev_dropWhile_rev_hd)
  ultimately show ?thesis by simp
qed

lemma py_strip_last:
  assumes "py_strip chars s \<noteq> []"
  shows "last (py_strip chars s) \<notin> set chars"
proof -
  let ?P = "\<lambda>c. c \<in> set chars"
  let ?d = "dropWhile ?P (rev (py_lstrip chars s))"
  from assms have ne: "?d \<noteq> []"
    by (simp add: py_strip_def py_rstrip_def)
  then have "\<not> ?P (hd ?d)" by (rule dropWhile_hd)
  moreover have "last (py_strip chars s) = hd ?d"
    using ne by (simp add: py_strip_def py_rstrip_def last_rev)
  ultimately show ?thesis by simp
qed

lemma py_strip_fixed:
  assumes "s \<noteq> []" "hd s \<notin> set chars" "last s \<notin> set chars"
  shows "py_strip chars s = s"
proof -
  have l: "py_lstrip chars s = s"
    unfolding py_lstrip_def using assms(2) by (intro dropWhile_fixed) simp
  have "hd (rev s) \<notin> set chars"
    using assms(1,3) by (simp add: hd_rev)
  then have "dropWhile (\<lambda>c. c \<in> set chars) (rev s) = rev s"
    by (intro dropWhile_fixed) simp
  with l show ?thesis
    by (simp add: py_strip_def py_rstrip_def)
qed

lemma py_strip_idem: "py_strip chars (py_strip chars s) = py_strip chars s"
proof (cases "py_strip chars s = []")
  case True
  have "py_strip chars [] = []"
    by (simp add: py_strip_def py_rstrip_def py_lstrip_def)
  with True show ?thesis by simp
next
  case False
  show ?thesis
    by (rule py_strip_fixed [OF False py_strip_hd [OF False] py_strip_last [OF False]])
qed

lemma sanitize_filename_safe: "list_all safe_char (sanitize_filename name)"
  by (simp add: sanitize_filename_def Let_def py_strip_safe re_sub_unsafe_safe safe_char_def)

lemma sanitize_filename_nonempty: "sanitize_filename name \<noteq> []"
  by (simp add: sanitize_filename_def Let_def)

text \<open>
  C1: for every input, the output of \<open>sanitize_filename\<close> matches \<open>^[A-Za-z0-9._-]+$\<close>
  and is not empty.  It is the input with every character outside the class replaced by
  \<open>_\<close> and the leading and trailing \<open>.\<close>, \<open>_\<close>, \<open>-\<close> stripped, or the literal \<open>file\<close>
  when nothing is left.
\<close>

theorem sanitize_filename_matches:
  "matches_safe_name (sanitize_filename name) \<and>
   length (re_sub_unsafe name) = length name \<and>
   (\<forall>i < length name. re_sub_unsafe name ! i = (if safe_char (name ! i) then name ! i else CHR ''_'')) \<and>
   sanitize_filename name =
     (if py_strip ''._-'' (re_sub_unsafe name) = [] then ''file''
      else py_strip ''._-'' (re_sub_unsafe name)) \<and>
   (sanitize_filename name = ''file'' \<or>
      hd (sanitize_filename name) \<notin> set ''._-'' \<and> last (sanitize_filename name) \<notin> set ''._-'')"
proof -
  have "matches_safe_name (sanitize_filename name)"
    by (simp add: matches_safe_name_def sanitize_filename_safe sanitize_filename_nonempty)
  moreover have "length (re_sub_unsafe name) = length name"
    by (simp add: re_sub_unsafe_def)
  moreover have "\<forall>i < length name.
      re_sub_unsafe name ! i = (if safe_char (name ! i) then name ! i else CHR ''_'')"
    by (simp add: re_sub_unsafe_def)
  moreover have e: "sanitize_filename name =
     (if py_strip ''._-'' (re_sub_unsafe name) = [] then ''file''
      else py_strip ''._-'' (re_sub_unsafe name))"
    by (simp add: sanitize_filename_def Let_def)
  moreover have "sanitize_filename name = ''file'' \<or>
      hd (sanitize_filename name) \<notin> set ''._-'' \<and> last (sanitize_filename name) \<notin> set ''._-''"
  proof (cases "py_strip ''._-'' (re_sub_unsafe name) = []")
    case True
    with e show ?thesis by simp
  next
    case False
    with e py_strip_hd [OF False] py_strip_last [OF False] show ?thesis by simp
  qed
  ultimately show ?thesis by blast
qed

theorem sanitize_filename_matches_witness:
  "matches_safe_name (sanitize_filename ''..my pic?.png_'') \<and>
   sanitize_filename ''..my pic?.png_'' = ''my_pic_.png''"
proof -
  have a: "sanitize_filename ''..my pic?.png_'' = ''my_pic_.png''"
    by (simp add: sanitize_filename_def re_sub_unsafe_def safe_char_def py_strip_def
        py_rstrip_def py_lstrip_def)
  have m: "matches_safe_name (sanitize_filename ''..my pic?.png_'')"
    using sanitize_filename_matches [of "''..my pic?.png_''"] by (rule conjunct1)
  from m a show ?thesis by (rule conjI)
qed

text \<open>
  C10: \<open>sanitize_filename\<close> is idempotent, so the second application in the pipeline
  leaves a name that is already sanitized as it is.
\<close>

theorem sanitize_filename_idem:
  "sanitize_filename (sanitize_filename name) = sanitize_filename name"
proof -
  let ?s = "py_strip ''._-'' (re_sub_unsafe name)"
  show ?thesis
  proof (cases "?s = []")
    case True
    then have "sanitize_filename name = ''file''"
      by (simp add: sanitize_filename_def Let_def)
    moreover have "sanitize_filename ''file'' = ''file''"
      by (simp add: sanitize_filename_def re_sub_unsafe_def safe_char_def py_strip_def
          py_rstrip_def py_lstrip_def)
    ultimately show ?thesis by simp
  next
    case False
    then have s: "sanitize_filename name = ?s"
      by (simp add: sanitize_filename_def Let_def)
    have "list_all safe_char ?s"
      by (simp add: py_strip_safe re_sub_unsafe_safe)
    then have "re_sub_unsafe ?s = ?s"
      by (rule re_sub_unsafe_id)
    then have "sanitize_filename ?s = ?s"
      using False by (simp add: sanitize_filename_def Let_def py_strip_idem)
    with s show ?thesis by simp
  qed
qed
section \<open>Properties of the decimal digits and of paths\<close>

lemma digit_val_digit_char:
  assumes "d < 10"
  shows "digit_val (digit_char d) = d"
proof -
  from assms have "d \<in> {0, 1, 2, 3, 4, 5, 6, 7, 8, 9}" by auto
  then show ?thesis
    by (auto simp: digit_val_def digit_char_def)
qed

lemma nat_of_digits_str_nat: "nat_of_digits (str_nat n) = n"
proof (induction n rule: str_nat.induct)
  case (1 n)
  show ?case
  proof (cases "n < 10")
    case True
    then show ?thesis
      by (simp add: str_nat.simps [of n] nat_of_digits_def digit_val_digit_char)
  next
    case False
    with 1 have ih: "nat_of_digits (str_nat (n div 10)) = n div 10" by simp
    have "nat_of_digits (str_nat n) = 10 * nat_of_digits (str_nat (n div 10)) + digit_val (digit_char (n mod 10))"
      using False by (simp add: str_nat.simps [of n] nat_of_digits_def)
    also have "\<dots> = 10 * (n div 10) + n mod 10"
      by (simp add: ih digit_val_digit_char)
    finally show ?thesis by simp
  qed
qed

lemma str_nat_inj: "str_nat m = str_nat n \<Longrightarrow> m = n"
  by (metis nat_of_digits_str_nat)

lemma path_join_numbered:
  "\<exists>pre. \<forall>j. path_join d (numbered base j ext) = pre @ str_nat j @ ext"
proof (cases base)
  case Nil
  show ?thesis
  proof (cases "d = [] \<or> endswith d ''/''")
    case True
    with Nil have "\<forall>j. path_join d (numbered base j ext) = (d @ ''_'') @ str_nat j @ ext"
      by (simp add: path_join_def numbered_def startswith_def)
    then show ?thesis ..
  next
    case False
    with Nil have "\<forall>j. path_join d (numbered base j ext) = (d @ ''/_'') @ str_nat j @ ext"
      by (simp add: path_join_def numbered_def startswith_def)
    then show ?thesis ..
  qed
next
  case (Cons c cs)
  show ?thesis
  proof (cases "c = CHR ''/''")
    case True
    with Cons have "\<forall>j. path_join d (numbered base j ext) = (base @ ''_'') @ str_nat j @ ext"
      by (simp add: path_join_def numbered_def startswith_def)
    then show ?thesis ..
  next
    case nsl: False
    show ?thesis
    proof (cases "d = [] \<or> endswith d ''/''")
      case True
      with Cons nsl have "\<forall>j. path_join d (numbered base j ext) = (d @ base @ ''_'') @ str_nat j @ ext"
        by (simp add: path_join_def numbered_def startswith_def)
      then show ?thesis ..
    next
      case False
      with Cons nsl have "\<forall>j. path_join d (numbered base j ext) = (d @ ''/'' @ base @ ''_'') @ str_nat j @ ext"
        by (simp add: path_join_def numbered_def startswith_def)
      then show ?thesis ..
    qed
  qed
qed

lemma path_join_numbered_inj:
  assumes eq: "path_join d (numbered base i ext) = path_join d (numbered base j ext)"
  shows "i = j"
proof -
  obtain pre where "\<forall>j. path_join d (numbered base j ext) = pre @ str_nat j @ ext"
    using path_join_numbered by blast
  with eq have "pre @ str_nat i @ ext = pre @ str_nat j @ ext" by simp
  then have "str_nat i = str_nat j" by simp
  then show "i = j" by (rule str_nat_inj)
qed

lemma finite_taken_from: "finite (taken_from fs d base ext i)"
proof -
  let ?h = "\<lambda>j. path_join d (numbered base j ext)"
  have "inj ?h"
    by (rule injI) (rule path_join_numbered_inj)
  then have "finite (?h -` set (map fst (entries fs)))"
    by (intro finite_vimageI) simp_all
  moreover have "taken_from fs d base ext i \<subseteq> ?h -` set (map fst (entries fs))"
    by (auto simp: taken_from_def path_exists_def)
  ultimately show ?thesis by (rule rev_finite_subset)
qed

lemma taken_from_Suc_subset: "taken_from fs d base ext (Suc i) \<subseteq> taken_from fs d base ext i"
  by (auto simp: taken_from_def)

lemma card_taken_from_Suc_le:
  "card (taken_from fs d base ext (Suc i)) \<le> card (taken_from fs d base ext i)"
  by (rule card_mono [OF finite_taken_from taken_from_Suc_subset])

lemma card_taken_from_Suc_less:
  assumes "path_exists fs (path_join d (numbered base i ext))"
  shows "card (taken_from fs d base ext (Suc i)) < card (taken_from fs d base ext i)"
proof (rule psubset_card_mono [OF finite_taken_from])
  have "i \<in> taken_from fs d base ext i" "i \<notin> taken_from fs d base ext (Suc i)"
    using assms by (simp_all add: taken_from_def)
  with taken_from_Suc_subset [of fs d base ext i]
  show "taken_from fs d base ext (Suc i) \<subset> taken_from fs d base ext i"
    by blast
qed

termination unique_loop
proof (relation "measure (\<lambda>(fs, d, base, ext, cand, i).
          2 * card (taken_from fs d base ext i) + (if path_exists fs (path_join d cand) then 1 else 0))")
  show "wf (measure (\<lambda>(fs, d, base, ext, cand, i).
          2 * card (taken_from fs d base ext i) + (if path_exists fs (path_join d cand) then 1 else 0)))"
    by simp
next
  fix fs :: filesystem and directory base ext candidate :: string and i :: nat
  assume ex: "path_exists fs (path_join directory candidate)"
  show "((fs, directory, base, ext, numbered base i ext, i + 1), (fs, directory, base, ext, candidate, i))
        \<in> measure (\<lambda>(fs, d, base, ext, cand, i).
          2 * card (taken_from fs d base ext i) + (if path_exists fs (path_join d cand) then 1 else 0))"
  proof (cases "path_exists fs (path_join directory (numbered base i ext))")
    case True
    from card_taken_from_Suc_less [OF True] ex True show ?thesis by simp
  next
    case False
    from card_taken_from_Suc_le [of fs directory base ext i] ex False show ?thesis by simp
  qed
qed

declare unique_loop.simps [simp del]

lemma unique_loop_free:
  "\<not> path_exists fs (path_join d cand) \<Longrightarrow> unique_loop fs d base ext cand i = path_join d cand"
  by (simp add: unique_loop.simps [of fs d base ext cand i])

lemma unique_loop_taken:
  "path_exists fs (path_join d cand) \<Longrightarrow>
   unique_loop fs d base ext cand i = unique_loop fs d base ext (numbered base i ext) (Suc i)"
  by (simp add: unique_loop.simps [of fs d base ext cand i])

text \<open>The loop from index i with the names i..<k taken and k free stops at k.\<close>

lemma unique_loop_first_free:
  assumes "path_exists fs (path_join d cand)"
    and "\<forall>j. i \<le> j \<and> j < k \<longrightarrow> path_exists fs (path_join d (numbered base j ext))"
    and "\<not> path_exists fs (path_join d (numbered base k ext))"
    and "i \<le> k"
  shows "unique_loop fs d base ext cand i = path_join d (numbered base k ext)"
  using assms
proof (induction "k - i" arbitrary: i cand)
  case 0
  then have "i = k" by simp
  with 0 show ?case
    by (simp add: unique_loop_taken unique_loop_free)
next
  case (Suc n)
  then have lt: "i < k" by simp
  with Suc.prems have ex: "path_exists fs (path_join d (numbered base i ext))" by simp
  have "unique_loop fs d base ext (numbered base i ext) (Suc i) = path_join d (numbered base k ext)"
  proof (rule Suc.hyps(1))
    show "n = k - Suc i" using Suc.hyps(2) by simp
    show "path_exists fs (path_join d (numbered base i ext))" by (rule ex)
    show "\<forall>j. Suc i \<le> j \<and> j < k \<longrightarrow> path_exists fs (path_join d (numbered base j ext))"
      using Suc.prems(2) by simp
    show "\<not> path_exists fs (path_join d (numbered base k ext))" by (rule Suc.prems(3))
    show "Suc i \<le> k" using lt by simp
  qed
  with Suc.prems(1) show ?case
    by (simp add: unique_loop_taken)
qed

text \<open>Some numbered name from i on is free, since the directory is finite.\<close>

lemma some_numbered_free:
  "\<exists>k\<ge>i. \<not> path_exists fs (path_join d (numbered base k ext))"
proof (rule ccontr)
  assume "\<not> ?thesis"
  then have "taken_from fs d base ext i = {j. i \<le> j}"
    by (auto simp: taken_from_def)
  moreover have "infinite {j. i \<le> j}"
  proof
    assume "finite {j. i \<le> j}"
    then obtain m where m: "\<forall>n\<in>{j. i \<le> j}. n \<le> m"
      unfolding finite_nat_set_iff_bounded_le by blast
    then have "i \<le> Suc (max i m) \<longrightarrow> Suc (max i m) \<le> m" by blast
    then have "Suc (max i m) \<le> m" by simp
    then show False by simp
  qed
  ultimately show False
    using finite_taken_from [of fs d base ext i] by simp
qed

lemma splitext_a_jpg: "splitext ''a.jpg'' = (''a'', ''.jpg'')"
  by (simp add: splitext_def py_rfind_def py_slice_def)

lemma unique_filepath_free:
  "\<not> path_exists fs (path_join d f) \<Longrightarrow> unique_filepath fs d f = path_join d f"
  by (simp add: unique_filepath_def unique_loop_free split: prod.splits)

lemma unique_filepath_numbered:
  assumes "splitext f = (base, ext)"
    and "path_exists fs (path_join d f)"
    and "\<forall>j. 1 \<le> j \<and> j < k \<longrightarrow> path_exists fs (path_join d (numbered base j ext))"
    and "\<not> path_exists fs (path_join d (numbered base k ext))"
    and "1 \<le> k"
  shows "unique_filepath fs d f = path_join d (numbered base k ext)"
proof -
  have "unique_loop fs d base ext f 1 = path_join d (numbered base k ext)"
    using assms(2-5) by (rule unique_loop_first_free)
  with assms(1) show ?thesis
    by (simp add: unique_filepath_def)
qed

lemma unique_filepath_first:
  "\<exists>k. unique_filepath fs d f = path_join d (nth_candidate f k) \<and>
       \<not> path_exists fs (path_join d (nth_candidate f k)) \<and>
       (\<forall>j<k. path_exists fs (path_join d (nth_candidate f j)))"
proof (cases "path_exists fs (path_join d f)")
  case False
  then have "unique_filepath fs d f = path_join d (nth_candidate f 0) \<and>
       \<not> path_exists fs (path_join d (nth_candidate f 0)) \<and>
       (\<forall>j<0. path_exists fs (path_join d (nth_candidate f j)))"
    by (simp add: unique_filepath_free nth_candidate_def)
  then show ?thesis ..
next
  case True
  obtain base ext where se: "splitext f = (base, ext)"
    by (cases "splitext f")
  let ?P = "\<lambda>j. path_exists fs (path_join d (numbered base j ext))"
  let ?Q = "\<lambda>k. 1 \<le> k \<and> \<not> ?P k"
  obtain k0 where "?Q k0"
    using some_numbered_free [of 1 fs d base ext] by blast
  define k where "k = (LEAST k. ?Q k)"
  have Qk: "?Q k"
    unfolding k_def using \<open>?Q k0\<close> by (rule LeastI)
  have least: "\<And>j. j < k \<Longrightarrow> \<not> ?Q j"
    unfolding k_def by (rule not_less_Least)
  have taken: "\<forall>j. 1 \<le> j \<and> j < k \<longrightarrow> ?P j"
    using least by blast
  have res: "unique_filepath fs d f = path_join d (numbered base k ext)"
    using se True taken Qk by (intro unique_filepath_numbered) simp_all
  have cand: "\<And>j. 1 \<le> j \<Longrightarrow> nth_candidate f j = numbered base j ext"
    by (simp add: nth_candidate_def se)
  have "\<forall>j<k. path_exists fs (path_join d (nth_candidate f j))"
  proof (intro allI impI)
    fix j assume "j < k"
    show "path_exists fs (path_join d (nth_candidate f j))"
    proof (cases "j = 0")
      case True
      with \<open>path_exists fs (path_join d f)\<close> show ?thesis
        by (simp add: nth_candidate_def)
    next
      case False
      then have "1 \<le> j" by simp
      with taken \<open>j < k\<close> cand [of j] show ?thesis by simp
    qed
  qed
  moreover have "unique_filepath fs d f = path_join d (nth_candidate f k)"
    using res cand [of k] Qk by simp
  moreover have "\<not> path_exists fs (path_join d (nth_candidate f k))"
    using cand [of k] Qk by simp
  ultimately show ?thesis by blast
qed

lemma path_join_d_a: "path_join ''d'' (numbered ''a'' j ''.jpg'') = ''d/a_'' @ str_nat j @ ''.jpg''"
  by (simp add: path_join_def numbered_def startswith_def endswith_def)

lemma path_exists_crowded_dir:
  "path_exists (crowded_dir n) (''d/a_'' @ str_nat j @ ''.jpg'') \<longleftrightarrow> 1 \<le> j \<and> j \<le> n"
proof -
  have "path_exists (crowded_dir n) (''d/a_'' @ str_nat j @ ''.jpg'') \<longleftrightarrow>
        (\<exists>i\<in>{1..<Suc n}. str_nat j = str_nat i)"
    by (auto simp: path_exists_def crowded_dir_def fs_of_def comp_def)
  also have "\<dots> \<longleftrightarrow> (\<exists>i\<in>{1..<Suc n}. j = i)"
    by (auto dest: str_nat_inj)
  also have "\<dots> \<longleftrightarrow> 1 \<le> j \<and> j \<le> n"
    by auto
  finally show ?thesis .
qed

lemma unique_filepath_crowded_dir:
  "unique_filepath (crowded_dir n) ''d'' ''a.jpg'' = ''d/a_'' @ str_nat (Suc n) @ ''.jpg''"
proof -
  have "unique_filepath (crowded_dir n) ''d'' ''a.jpg'' = path_join ''d'' (numbered ''a'' (Suc n) ''.jpg'')"
  proof (rule unique_filepath_numbered [OF splitext_a_jpg])
    show "path_exists (crowded_dir n) (path_join ''d'' ''a.jpg'')"
      by (simp add: path_exists_def crowded_dir_def fs_of_def path_join_def startswith_def endswith_def)
    show "\<forall>j. 1 \<le> j \<and> j < Suc n \<longrightarrow> path_exists (crowded_dir n) (path_join ''d'' (numbered ''a'' j ''.jpg''))"
      by (simp only: path_join_d_a path_exists_crowded_dir) simp
    show "\<not> path_exists (crowded_dir n) (path_join ''d'' (numbered ''a'' (Suc n) ''.jpg''))"
      by (simp only: path_join_d_a path_exists_crowded_dir) simp
    show "1 \<le> Suc n" by simp
  qed
  then show ?thesis by (simp only: path_join_d_a)
qed

lemma str_nat_10001: "str_nat (Suc 10000) = ''10001''"
  by (simp add: str_nat.simps digit_char_def)

section \<open>\<open>unique_filepath\<close>: the first unused name\<close>

lemma str_nat_small:
  "str_nat (Suc 0) = ''1''" "str_nat 1 = ''1''" "str_nat 2 = ''2''" "str_nat 3 = ''3''"
  "str_nat 4 = ''4''"
  by (simp_all add: str_nat.simps digit_char_def)

lemma path_join_dir_a:
  "path_join ''dir'' ''a.jpg'' = ''dir/a.jpg''"
  "path_join ''dir'' (numbered ''a'' j ''.jpg'') = ''dir/a_'' @ str_nat j @ ''.jpg''"
  by (simp_all add: path_join_def numbered_def startswith_def endswith_def)

lemma nth_candidate_0: "nth_candidate f 0 = f"
  by (simp add: nth_candidate_def)

lemma nth_candidate_a_jpg: "1 \<le> j \<Longrightarrow> nth_candidate ''a.jpg'' j = numbered ''a'' j ''.jpg''"
  by (simp add: nth_candidate_def splitext_a_jpg)

lemma unique_filepath_nth_candidate:
  assumes "path_exists fs (path_join d f)"
    and "\<forall>j. 1 \<le> j \<and> j \<le> n \<longrightarrow> path_exists fs (path_join d (nth_candidate f j))"
    and "\<not> path_exists fs (path_join d (nth_candidate f (Suc n)))"
  shows "unique_filepath fs d f = path_join d (nth_candidate f (Suc n))"
proof -
  obtain base ext where se: "splitext f = (base, ext)"
    by (cases "splitext f")
  have cand: "\<And>j. 1 \<le> j \<Longrightarrow> nth_candidate f j = numbered base j ext"
    by (simp add: nth_candidate_def se)
  have "unique_filepath fs d f = path_join d (numbered base (Suc n) ext)"
  proof (rule unique_filepath_numbered [OF se assms(1)])
    show "\<forall>j. 1 \<le> j \<and> j < Suc n \<longrightarrow> path_exists fs (path_join d (numbered base j ext))"
    proof (intro allI impI)
      fix j assume j: "1 \<le> j \<and> j < Suc n"
      then have "path_exists fs (path_join d (nth_candidate f j))"
        using assms(2) by simp
      with j show "path_exists fs (path_join d (numbered base j ext))"
        by (simp add: cand)
    qed
    show "\<not> path_exists fs (path_join d (numbered base (Suc n) ext))"
      using assms(3) by (simp add: cand)
    show "1 \<le> Suc n" by simp
  qed
  then show ?thesis by (simp add: cand)
qed

lemma unique_filepath_a_1:
  assumes "path_exists fs ''dir/a.jpg''" "\<not> path_exists fs ''dir/a_1.jpg''"
  shows "unique_filepath fs ''dir'' ''a.jpg'' = ''dir/a_1.jpg''"
proof -
  have "unique_filepath fs ''dir'' ''a.jpg'' = path_join ''dir'' (numbered ''a'' 1 ''.jpg'')"
  proof (rule unique_filepath_numbered [OF splitext_a_jpg])
    show "path_exists fs (path_join ''dir'' ''a.jpg'')"
      using assms(1) by (simp add: path_join_dir_a)
    show "\<forall>j. 1 \<le> j \<and> j < 1 \<longrightarrow> path_exists fs (path_join ''dir'' (numbered ''a'' j ''.jpg''))"
      by simp
    show "\<not> path_exists fs (path_join ''dir'' (numbered ''a'' 1 ''.jpg''))"
      using assms(2) by (simp add: path_join_dir_a str_nat_small)
    show "(1::nat) \<le> 1" by simp
  qed
  then show ?thesis by (simp add: path_join_dir_a str_nat_small)
qed

lemma unique_filepath_a_2:
  assumes "path_exists fs ''dir/a.jpg''" "path_exists fs ''dir/a_1.jpg''"
    "\<not> path_exists fs ''dir/a_2.jpg''"
  shows "unique_filepath fs ''dir'' ''a.jpg'' = ''dir/a_2.jpg''"
proof -
  have "unique_filepath fs ''dir'' ''a.jpg'' = path_join ''dir'' (numbered ''a'' 2 ''.jpg'')"
  proof (rule unique_filepath_numbered [OF splitext_a_jpg])
    show "path_exists fs (path_join ''dir'' ''a.jpg'')"
      using assms(1) by (simp add: path_join_dir_a)
    show "\<forall>j. 1 \<le> j \<and> j < 2 \<longrightarrow> path_exists fs (path_join ''dir'' (numbered ''a'' j ''.jpg''))"
    proof (intro allI impI)
      fix j :: nat assume "1 \<le> j \<and> j < 2"
      then have "j = 1" by simp
      with assms(2) show "path_exists fs (path_join ''dir'' (numbered ''a'' j ''.jpg''))"
        by (simp add: path_join_dir_a str_nat_small)
    qed
    show "\<not> path_exists fs (path_join ''dir'' (numbered ''a'' 2 ''.jpg''))"
      using assms(3) by (simp add: path_join_dir_a str_nat_small)
    show "(1::nat) \<le> 2" by simp
  qed
  then show ?thesis by (simp add: path_join_dir_a str_nat_small)
qed

text \<open>
  C2: when no entry has the name, \<open>unique_filepath\<close> returns the directory joined with
  the file name.  In general it returns the first of the names \<open>filename\<close>,
  \<open>stem_1.ext\<close>, \<open>stem_2.ext\<close>, ... that does not exist, every earlier one existing.
  For \<open>a.jpg\<close> in \<open>dir\<close> this is \<open>dir/a.jpg\<close> when that is absent, \<open>dir/a_1.jpg\<close> when
  only \<open>dir/a.jpg\<close> exists, and \<open>dir/a_2.jpg\<close> when \<open>dir/a.jpg\<close> and \<open>dir/a_1.jpg\<close> exist.
\<close>

theorem unique_filepath_first_unused:
  "(\<not> path_exists fs (path_join directory filename) \<longrightarrow>
      unique_filepath fs directory filename = path_join directory filename) \<and>
   (\<exists>k. unique_filepath fs directory filename = path_join directory (nth_candidate filename k) \<and>
        \<not> path_exists fs (path_join directory (nth_candidate filename k)) \<and>
        (\<forall>j<k. path_exists fs (path_join directory (nth_candidate filename j)))) \<and>
   (\<not> path_exists fs ''dir/a.jpg'' \<longrightarrow> unique_filepath fs ''dir'' ''a.jpg'' = ''dir/a.jpg'') \<and>
   (path_exists fs ''dir/a.jpg'' \<and> \<not> path_exists fs ''dir/a_1.jpg'' \<longrightarrow>
      unique_filepath fs ''dir'' ''a.jpg'' = ''dir/a_1.jpg'') \<and>
   (path_exists fs ''dir/a.jpg'' \<and> path_exists fs ''dir/a_1.jpg'' \<and>
    \<not> path_exists fs ''dir/a_2.jpg'' \<longrightarrow>
      unique_filepath fs ''dir'' ''a.jpg'' = ''dir/a_2.jpg'')"
proof (intro conjI impI)
  assume "\<not> path_exists fs (path_join directory filename)"
  then show "unique_filepath fs directory filename = path_join directory filename"
    by (rule unique_filepath_free)
next
  show "\<exists>k. unique_filepath fs directory filename = path_join directory (nth_candidate filename k) \<and>
        \<not> path_exists fs (path_join directory (nth_candidate filename k)) \<and>
        (\<forall>j<k. path_exists fs (path_join directory (nth_candidate filename j)))"
    by (rule unique_filepath_first)
next
  assume "\<not> path_exists fs ''dir/a.jpg''"
  then have "\<not> path_exists fs (path_join ''dir'' ''a.jpg'')"
    by (simp add: path_join_dir_a)
  then have "unique_filepath fs ''dir'' ''a.jpg'' = path_join ''dir'' ''a.jpg''"
    by (rule unique_filepath_free)
  then show "unique_filepath fs ''dir'' ''a.jpg'' = ''dir/a.jpg''"
    by (simp add: path_join_dir_a)
next
  assume "path_exists fs ''dir/a.jpg'' \<and> \<not> path_exists fs ''dir/a_1.jpg''"
  then show "unique_filepath fs ''dir'' ''a.jpg'' = ''dir/a_1.jpg''"
    by (simp add: unique_filepath_a_1)
next
  assume "path_exists fs ''dir/a.jpg'' \<and> path_exists fs ''dir/a_1.jpg'' \<and>
    \<not> path_exists fs ''dir/a_2.jpg''"
  then show "unique_filepath fs ''dir'' ''a.jpg'' = ''dir/a_2.jpg''"
    by (simp add: unique_filepath_a_2)
qed

theorem unique_filepath_first_unused_witness:
  "path_exists (fs_of [''dir/a.jpg'', ''dir/a_1.jpg'']) ''dir/a.jpg'' \<and>
   path_exists (fs_of [''dir/a.jpg'', ''dir/a_1.jpg'']) ''dir/a_1.jpg'' \<and>
   \<not> path_exists (fs_of [''dir/a.jpg'', ''dir/a_1.jpg'']) ''dir/a_2.jpg'' \<and>
   unique_filepath (fs_of [''dir/a.jpg'', ''dir/a_1.jpg'']) ''dir'' ''a.jpg'' = ''dir/a_2.jpg'' \<and>
   \<not> path_exists (fs_of []) ''dir/a.jpg'' \<and>
   unique_filepath (fs_of []) ''dir'' ''a.jpg'' = ''dir/a.jpg''"
proof -
  have h: "path_exists (fs_of [''dir/a.jpg'', ''dir/a_1.jpg'']) ''dir/a.jpg'' \<and>
        path_exists (fs_of [''dir/a.jpg'', ''dir/a_1.jpg'']) ''dir/a_1.jpg'' \<and>
        \<not> path_exists (fs_of [''dir/a.jpg'', ''dir/a_1.jpg'']) ''dir/a_2.jpg''"
    by (simp add: path_exists_def fs_of_def)
  have e: "\<not> path_exists (fs_of []) ''dir/a.jpg''"
    by (simp add: path_exists_def fs_of_def)
  from h unique_filepath_first_unused [of "fs_of [''dir/a.jpg'', ''dir/a_1.jpg'']" "''dir''" "''a.jpg''"]
  have r2: "unique_filepath (fs_of [''dir/a.jpg'', ''dir/a_1.jpg'']) ''dir'' ''a.jpg'' = ''dir/a_2.jpg''"
    by blast
  from e unique_filepath_first_unused [of "fs_of []" "''dir''" "''a.jpg''"]
  have r0: "unique_filepath (fs_of []) ''dir'' ''a.jpg'' = ''dir/a.jpg''"
    by blast
  from h e r2 r0 show ?thesis by blast
qed

text \<open>
  C8, as the code has it: \<open>unique_filepath\<close> returns for every file system and file name,
  and the path it returns does not exist.  There is no bound on the retries and no error:
  whatever \<open>n\<close>, when the name and its first \<open>n\<close> numbered variants exist and the next one
  does not, the result is that next one.
\<close>

theorem unique_filepath_no_retry_cap:
  "\<not> path_exists fs (unique_filepath fs directory filename) \<and>
   (\<forall>n. path_exists fs (path_join directory filename) \<and>
        (\<forall>j. 1 \<le> j \<and> j \<le> n \<longrightarrow> path_exists fs (path_join directory (nth_candidate filename j))) \<and>
        \<not> path_exists fs (path_join directory (nth_candidate filename (Suc n)))
        \<longrightarrow> unique_filepath fs directory filename =
              path_join directory (nth_candidate filename (Suc n)))"
proof (intro conjI allI impI)
  obtain k where "unique_filepath fs directory filename = path_join directory (nth_candidate filename k)"
    and "\<not> path_exists fs (path_join directory (nth_candidate filename k))"
    using unique_filepath_first [of fs directory filename] by blast
  then show "\<not> path_exists fs (unique_filepath fs directory filename)"
    by simp
next
  fix n
  assume "path_exists fs (path_join directory filename) \<and>
        (\<forall>j. 1 \<le> j \<and> j \<le> n \<longrightarrow> path_exists fs (path_join directory (nth_candidate filename j))) \<and>
        \<not> path_exists fs (path_join directory (nth_candidate filename (Suc n)))"
  then show "unique_filepath fs directory filename =
              path_join directory (nth_candidate filename (Suc n))"
    by (intro unique_filepath_nth_candidate) simp_all
qed

lemma crowded_dir_candidates:
  "path_exists (crowded_dir n) (path_join ''d'' ''a.jpg'')"
  "1 \<le> j \<Longrightarrow> path_exists (crowded_dir n) (path_join ''d'' (nth_candidate ''a.jpg'' j)) \<longleftrightarrow> j \<le> n"
proof -
  show "path_exists (crowded_dir n) (path_join ''d'' ''a.jpg'')"
    by (simp add: path_exists_def crowded_dir_def fs_of_def path_join_def startswith_def endswith_def)
  assume j: "1 \<le> j"
  have "path_exists (crowded_dir n) (path_join ''d'' (nth_candidate ''a.jpg'' j)) \<longleftrightarrow>
        1 \<le> j \<and> j \<le> n"
    by (simp only: nth_candidate_a_jpg [OF j] path_join_d_a path_exists_crowded_dir)
  with j show "path_exists (crowded_dir n) (path_join ''d'' (nth_candidate ''a.jpg'' j)) \<longleftrightarrow> j \<le> n"
    by simp
qed

theorem unique_filepath_no_retry_cap_witness:
  "path_exists (crowded_dir 3) ''d/a.jpg'' \<and>
   path_exists (crowded_dir 3) ''d/a_1.jpg'' \<and>
   path_exists (crowded_dir 3) ''d/a_2.jpg'' \<and>
   path_exists (crowded_dir 3) ''d/a_3.jpg'' \<and>
   \<not> path_exists (crowded_dir 3) ''d/a_4.jpg'' \<and>
   \<not> path_exists (crowded_dir 3) (unique_filepath (crowded_dir 3) ''d'' ''a.jpg'') \<and>
   unique_filepath (crowded_dir 3) ''d'' ''a.jpg'' = ''d/a_4.jpg''"
proof -
  have h: "path_exists (crowded_dir 3) (path_join ''d'' ''a.jpg'') \<and>
     (\<forall>j. 1 \<le> j \<and> j \<le> 3 \<longrightarrow> path_exists (crowded_dir 3) (path_join ''d'' (nth_candidate ''a.jpg'' j))) \<and>
     \<not> path_exists (crowded_dir 3) (path_join ''d'' (nth_candidate ''a.jpg'' (Suc 3)))"
    by (simp add: crowded_dir_candidates)
  with unique_filepath_no_retry_cap [of "crowded_dir 3" "''d''" "''a.jpg''"]
  have "unique_filepath (crowded_dir 3) ''d'' ''a.jpg'' = path_join ''d'' (nth_candidate ''a.jpg'' (Suc 3))"
    by blast
  also have "\<dots> = ''d/a_4.jpg''"
    by (simp add: nth_candidate_a_jpg path_join_d_a str_nat_small)
  finally have r: "unique_filepath (crowded_dir 3) ''d'' ''a.jpg'' = ''d/a_4.jpg''" .
  have n: "\<not> path_exists (crowded_dir 3) (unique_filepath (crowded_dir 3) ''d'' ''a.jpg'')"
    using unique_filepath_no_retry_cap [of "crowded_dir 3" "''d''" "''a.jpg''"] by blast
  have e: "\<And>j. path_exists (crowded_dir 3) (''d/a_'' @ str_nat j @ ''.jpg'') \<longleftrightarrow> 1 \<le> j \<and> j \<le> 3"
    by (rule path_exists_crowded_dir)
  have e1: "path_exists (crowded_dir 3) ''d/a_1.jpg''"
    using e [of 1] by (simp add: str_nat_small)
  have e2: "path_exists (crowded_dir 3) ''d/a_2.jpg''"
    using e [of 2] by (simp add: str_nat_small)
  have e3: "path_exists (crowded_dir 3) ''d/a_3.jpg''"
    using e [of 3] by (simp add: str_nat_small)
  have e4: "\<not> path_exists (crowded_dir 3) ''d/a_4.jpg''"
    using e [of 4] by (simp add: str_nat_small)
  have e0: "path_exists (crowded_dir 3) ''d/a.jpg''"
    using crowded_dir_candidates(1) [of 3]
    by (simp add: path_join_def startswith_def endswith_def)
  from e0 e1 e2 e3 e4 n r show ?thesis by blast
qed

text \<open>
  The claim as stated, a cap of 10,000 retries with an error beyond it, fails: with
  \<open>a.jpg\<close> and \<open>a_1.jpg\<close> to \<open>a_10000.jpg\<close> all present the result is \<open>a_10001.jpg\<close>.
\<close>

theorem unique_filepath_cap_counterexample:
  "path_exists (crowded_dir 10000) ''d/a.jpg'' \<and>
   path_exists (crowded_dir 10000) ''d/a_10000.jpg'' \<and>
   unique_filepath (crowded_dir 10000) ''d'' ''a.jpg'' = ''d/a_10001.jpg''"
proof -
  have s: "str_nat 10000 = ''10000''"
    by (simp add: str_nat.simps digit_char_def)
  have "path_exists (crowded_dir 10000) (''d/a_'' @ str_nat 10000 @ ''.jpg'')"
    by (simp only: path_exists_crowded_dir) simp
  then have a: "path_exists (crowded_dir 10000) ''d/a_10000.jpg''"
    by (simp add: s)
  have b: "path_exists (crowded_dir 10000) ''d/a.jpg''"
    using crowded_dir_candidates(1) [of 10000]
    by (simp add: path_join_def startswith_def endswith_def)
  have c: "unique_filepath (crowded_dir 10000) ''d'' ''a.jpg'' = ''d/a_10001.jpg''"
    using unique_filepath_crowded_dir [of 10000] by (simp only: str_nat_10001) simp
  from b a c show ?thesis by blast
qed

section \<open>The chunked writer\<close>

lemma write_chunks_filter: "write_chunks written chunks = written @ filter (\<lambda>c. c \<noteq> []) chunks"
  by (induction chunks arbitrary: written) auto

lemma concat_filter_nonempty: "concat (filter (\<lambda>c. c \<noteq> []) chunks) = concat chunks"
  by (induction chunks) auto

lemma concat_write_chunks: "concat (write_chunks [] chunks) = concat chunks"
  by (simp add: write_chunks_filter concat_filter_nonempty)

lemma download_image_ok:
  assumes "http_get url = Inr resp" "raise_for_status resp = None"
    "output_path \<notin> set (unwritable fs)" "body_error resp = None"
  shows "\<exists>fs' printed. download_image http_get url fs output_path = (None, fs', printed) \<and>
           file_contents fs' output_path = Some (concat (body resp))"
  using assms
  by (simp add: download_image_def open_wb_def Let_def file_contents_def update_conv'
      concat_write_chunks)

lemma filter_nonempty_lengths:
  assumes "map length chunks = [8192, 8192, 500]"
  shows "filter (\<lambda>c. c \<noteq> []) chunks = chunks \<and> length (concat chunks) = 16884"
proof -
  from assms obtain a b c where abc: "chunks = [a, b, c]"
    by (auto simp: map_eq_Cons_conv)
  with assms have "length a = 8192" "length b = 8192" "length c = 500"
    by simp_all
  moreover from this have "a \<noteq> []" "b \<noteq> []" "c \<noteq> []"
    by auto
  ultimately show ?thesis
    using abc by simp
qed

text \<open>
  C3: the chunked writer writes the chunks that are not empty, in order, and nothing for
  an empty chunk; the bytes written are the concatenation of the chunks, so two ways of
  cutting the same bytes into chunks give the same file.  A download that meets no error
  leaves exactly the concatenation of the body's chunks at the output path.  Chunks of
  8192, 8192 and 500 bytes are written as they come, 16884 bytes in all.
\<close>

theorem chunked_writer_roundtrip:
  "write_chunks [] chunks = filter (\<lambda>c. c \<noteq> []) chunks \<and>
   concat (write_chunks [] chunks) = concat chunks \<and>
   (concat chunks = concat chunks' \<longrightarrow>
      concat (write_chunks [] chunks) = concat (write_chunks [] chunks')) \<and>
   (http_get url = Inr resp \<and> raise_for_status resp = None \<and>
    output_path \<notin> set (unwritable fs) \<and> body_error resp = None \<longrightarrow>
      (\<exists>fs' printed. download_image http_get url fs output_path = (None, fs', printed) \<and>
         file_contents fs' output_path = Some (concat (body resp)))) \<and>
   (map length chunks = [8192, 8192, 500] \<longrightarrow>
      write_chunks [] chunks = chunks \<and> length (concat (write_chunks [] chunks)) = 16884)"
proof (intro conjI impI)
  show "write_chunks [] chunks = filter (\<lambda>c. c \<noteq> []) chunks"
    by (simp add: write_chunks_filter)
  show "concat (write_chunks [] chunks) = concat chunks"
    by (rule concat_write_chunks)
  show "concat (write_chunks [] chunks) = concat (write_chunks [] chunks')"
    if "concat chunks = concat chunks'"
    using that by (simp add: concat_write_chunks)
  show "\<exists>fs' printed. download_image http_get url fs output_path = (None, fs', printed) \<and>
         file_contents fs' output_path = Some (concat (body resp))"
    if "http_get url = Inr resp \<and> raise_for_status resp = None \<and>
        output_path \<notin> set (unwritable fs) \<and> body_error resp = None"
  proof -
    from that have "http_get url = Inr resp" "raise_for_status resp = None"
      "output_path \<notin> set (unwritable fs)" "body_error resp = None"
      by simp_all
    then show ?thesis by (rule download_image_ok)
  qed
  show "write_chunks [] chunks = chunks"
    if "map length chunks = [8192, 8192, 500]"
    using filter_nonempty_lengths [OF that] by (simp add: write_chunks_filter)
  show "length (concat (write_chunks [] chunks)) = 16884"
    if "map length chunks = [8192, 8192, 500]"
    using filter_nonempty_lengths [OF that] by (simp add: concat_write_chunks)
qed

theorem chunked_writer_roundtrip_witness:
  "write_chunks [] [''ab'', [], ''cde''] = [''ab'', ''cde''] \<and>
   concat (write_chunks [] [''ab'', [], ''cde'']) = ''abcde'' \<and>
   concat (write_chunks [] [''abc'', ''de'']) = ''abcde'' \<and>
   map length [replicate 8192 (CHR ''x''), replicate 8192 (CHR ''y''), replicate 500 (CHR ''z'')]
     = [8192, 8192, 500] \<and>
   length (concat (write_chunks []
     [replicate 8192 (CHR ''x''), replicate 8192 (CHR ''y''), replicate 500 (CHR ''z'')])) = 16884 \<and>
   file_contents
     (fst (snd (download_image
        (always_respond \<lparr>status_code = 200, content_type = Some ''image/png'',
                          body = [''ab'', [], ''cde''], body_error = None\<rparr>)
        ''http://h/a.png'' (fs_of []) ''Fetched_Images/a.png'')))
     ''Fetched_Images/a.png'' = Some ''abcde''"
proof -
  let ?big = "[replicate 8192 (CHR ''x''), replicate 8192 (CHR ''y''), replicate 500 (CHR ''z'')]"
  let ?resp = "\<lparr>status_code = 200, content_type = Some ''image/png'',
                 body = [''ab'', [], ''cde''], body_error = None\<rparr>"
  note t1 = chunked_writer_roundtrip [of "[''ab'', [], ''cde'']" "[]" "always_respond ?resp"
      "''http://h/a.png''" ?resp "''Fetched_Images/a.png''" "fs_of []"]
  note t2 = chunked_writer_roundtrip [of "[''abc'', ''de'']" "[]" "always_respond ?resp"
      "''http://h/a.png''" ?resp "''Fetched_Images/a.png''" "fs_of []"]
  note t3 = chunked_writer_roundtrip [of ?big "[]" "always_respond ?resp"
      "''http://h/a.png''" ?resp "''Fetched_Images/a.png''" "fs_of []"]
  have a: "write_chunks [] [''ab'', [], ''cde''] = [''ab'', ''cde'']"
    using t1 [THEN conjunct1] by simp
  have b: "concat (write_chunks [] [''ab'', [], ''cde'']) = ''abcde''"
    using t1 [THEN conjunct2, THEN conjunct1] by simp
  have c: "concat (write_chunks [] [''abc'', ''de'']) = ''abcde''"
    using t2 [THEN conjunct2, THEN conjunct1] by simp
  have l: "map length ?big = [8192, 8192, 500]"
    by (simp only: list.map length_replicate)
  have d: "length (concat (write_chunks [] ?big)) = 16884"
    using t3 [THEN conjunct2, THEN conjunct2, THEN conjunct2, THEN conjunct2, THEN mp, OF l]
    by (rule conjunct2)
  have h: "always_respond ?resp ''http://h/a.png'' = Inr ?resp \<and> raise_for_status ?resp = None \<and>
        ''Fetched_Images/a.png'' \<notin> set (unwritable (fs_of [])) \<and> body_error ?resp = None"
    by (simp add: always_respond_def raise_for_status_def fs_of_def)
  obtain fs' printed where
    dl: "download_image (always_respond ?resp) ''http://h/a.png'' (fs_of []) ''Fetched_Images/a.png''
       = (None, fs', printed)"
    and fc: "file_contents fs' ''Fetched_Images/a.png'' = Some (concat (body ?resp))"
    using t1 [THEN conjunct2, THEN conjunct2, THEN conjunct2, THEN conjunct1, THEN mp, OF h]
    by blast
  have "fst (snd (download_image (always_respond ?resp) ''http://h/a.png'' (fs_of [])
        ''Fetched_Images/a.png'')) = fs'"
    by (simp only: dl fst_conv snd_conv)
  moreover have "concat (body ?resp) = ''abcde''"
    by simp
  ultimately have e: "file_contents
     (fst (snd (download_image (always_respond ?resp) ''http://h/a.png'' (fs_of [])
        ''Fetched_Images/a.png''))) ''Fetched_Images/a.png'' = Some ''abcde''"
    using fc by (simp only:)
  from a b c l d e show ?thesis by (intro conjI)
qed

section \<open>The status check\<close>

lemma download_image_http_error:
  assumes "http_get url = Inr resp" "400 \<le> status_code resp" "status_code resp < 600"
  shows "download_image http_get url fs output_path = (Some (HTTPError (status_code resp)), fs, [])"
  using assms by (simp add: download_image_def raise_for_status_def)

lemma main_http_error_fs:
  assumes "get_of env (py_strip_ws (typed_url env)) = Inr resp"
    "400 \<le> status_code resp" "status_code resp < 600"
  shows "fst (snd (main env fs)) = fs"
proof -
  have dl: "\<And>p. download_image (get_of env) (py_strip_ws (typed_url env)) fs p =
      (Some (HTTPError (status_code resp)), fs, [])"
    using assms by (rule download_image_http_error)
  show ?thesis
    by (simp add: main_def Let_def dl outer_handler_def split: option.splits sum.splits)
qed

lemma main_http_error_printed:
  assumes "py_strip_ws (typed_url env) = url" "url \<noteq> []" "makedirs_error env = None"
    "resolve_filename env url = Inr filename"
    "py_lower (py_strip_ws (typed_confirm env)) \<noteq> ''n''"
    "get_of env url = Inr resp" "400 \<le> status_code resp" "status_code resp < 600"
  shows "main env fs =
     (None, fs, [Banner, Saving_to (unique_filepath fs FETCH_DIR filename),
                 Http_error_msg (status_code resp)])"
proof -
  have dl: "\<And>p. download_image (get_of env) url fs p =
      (Some (HTTPError (status_code resp)), fs, [])"
    using assms(6-8) by (rule download_image_http_error)
  show ?thesis
    using assms(1-5) by (simp add: main_def Let_def dl)
qed

text \<open>
  C4, as the code has it: for every response whose status is a client or server error,
  400 to 599 (404 for one), \<open>download_image\<close> raises \<open>HTTPError\<close> with the status code
  before it opens the output file, so the file system is as it was and nothing is
  printed by it; the handler of \<open>main\<close> turns the exception into the line on the HTTP
  error, carrying the code, and \<open>main\<close> leaves the file system unchanged as well.
\<close>

theorem http_error_status_leaves_no_file:
  "(http_get url = Inr resp \<and> 400 \<le> status_code resp \<and> status_code resp < 600 \<longrightarrow>
      download_image http_get url fs output_path = (Some (HTTPError (status_code resp)), fs, []) \<and>
      handle_download_error (HTTPError (status_code resp)) = Inr (Http_error_msg (status_code resp))) \<and>
   (get_of env (py_strip_ws (typed_url env)) = Inr resp \<and>
    400 \<le> status_code resp \<and> status_code resp < 600 \<longrightarrow>
      fst (snd (main env fs)) = fs) \<and>
   (py_strip_ws (typed_url env) = url \<and> url \<noteq> [] \<and> makedirs_error env = None \<and>
    resolve_filename env url = Inr filename \<and>
    py_lower (py_strip_ws (typed_confirm env)) \<noteq> ''n'' \<and>
    get_of env url = Inr resp \<and> 400 \<le> status_code resp \<and> status_code resp < 600 \<longrightarrow>
      main env fs =
        (None, fs, [Banner, Saving_to (unique_filepath fs FETCH_DIR filename),
                    Http_error_msg (status_code resp)]))"
proof (intro conjI impI)
  assume h: "http_get url = Inr resp \<and> 400 \<le> status_code resp \<and> status_code resp < 600"
  then have "http_get url = Inr resp" "400 \<le> status_code resp" "status_code resp < 600"
    by simp_all
  then show "download_image http_get url fs output_path =
      (Some (HTTPError (status_code resp)), fs, [])"
    by (rule download_image_http_error)
  show "handle_download_error (HTTPError (status_code resp)) = Inr (Http_error_msg (status_code resp))"
    by simp
next
  assume "get_of env (py_strip_ws (typed_url env)) = Inr resp \<and>
    400 \<le> status_code resp \<and> status_code resp < 600"
  then have "get_of env (py_strip_ws (typed_url env)) = Inr resp"
    "400 \<le> status_code resp" "status_code resp < 600"
    by simp_all
  then show "fst (snd (main env fs)) = fs"
    by (rule main_http_error_fs)
next
  assume "py_strip_ws (typed_url env) = url \<and> url \<noteq> [] \<and> makedirs_error env = None \<and>
    resolve_filename env url = Inr filename \<and>
    py_lower (py_strip_ws (typed_confirm env)) \<noteq> ''n'' \<and>
    get_of env url = Inr resp \<and> 400 \<le> status_code resp \<and> status_code resp < 600"
  then have "py_strip_ws (typed_url env) = url" "url \<noteq> []" "makedirs_error env = None"
    "resolve_filename env url = Inr filename"
    "py_lower (py_strip_ws (typed_confirm env)) \<noteq> ''n''"
    "get_of env url = Inr resp" "400 \<le> status_code resp" "status_code resp < 600"
    by simp_all
  then show "main env fs =
        (None, fs, [Banner, Saving_to (unique_filepath fs FETCH_DIR filename),
                    Http_error_msg (status_code resp)])"
    by (rule main_http_error_printed)
qed

text \<open>
  The claim as stated, every status outside 200..299, fails: a response with status 304
  raises nothing, and the output file is created with the body.
\<close>

theorem not_modified_status_counterexample:
  "download_image
     (always_respond \<lparr>status_code = 304, content_type = Some ''image/png'',
                       body = [''x''], body_error = None\<rparr>)
     ''https://x/img'' (fs_of []) ''Fetched_Images/img'' =
     (None, \<lparr>entries = [(''Fetched_Images/img'', ''x'')], unwritable = []\<rparr>, [])"
  by (simp add: download_image_def always_respond_def raise_for_status_def
      header_content_type_def py_lower_def lower_char_def upper_letters_def lower_letters_def
      startswith_def open_wb_def fs_of_def)

section \<open>\<open>extension_from_content_type\<close>\<close>

lemma before_first_idem: "before_first c (before_first c s) = before_first c s"
  by (simp add: before_first_def)

lemma main_type_of_Nil: "main_type_of [] = []"
  by (simp add: main_type_of_def before_first_def py_strip_ws_def py_strip_def py_rstrip_def
      py_lstrip_def py_lower_def)

lemma main_type_of_before_first: "main_type_of (before_first (CHR '';'') ct) = main_type_of ct"
  by (simp add: main_type_of_def before_first_idem)

lemma before_first_append:
  "c \<notin> set base \<Longrightarrow> before_first c (base @ c # params) = base"
  by (induction base) (auto simp: before_first_def)

lemma extension_no_type:
  assumes "guess_extension [] = None"
  shows "extension_from_content_type guess_extension ct =
         (case guess_extension (main_type_of ct) of
            Some (c # cs) \<Rightarrow> c # cs
          | _ \<Rightarrow> if startswith (main_type_of ct) ''image/''
                 then ''.'' @ after_first (CHR ''/'') (main_type_of ct) else [])"
proof (cases "ct = []")
  case True
  with assms show ?thesis
    by (simp add: extension_from_content_type_def main_type_of_Nil startswith_def)
next
  case False
  then show ?thesis
    by (simp add: extension_from_content_type_def Let_def)
qed

lemma extension_ignores_parameters:
  assumes "guess_extension [] = None"
  shows "extension_from_content_type guess_extension ct =
         extension_from_content_type guess_extension (before_first (CHR '';'') ct)"
  by (simp only: extension_no_type [of guess_extension, OF assms] main_type_of_before_first)

lemma after_first_image: "after_first (CHR ''/'') (''image/'' @ sub) = sub"
  by (simp add: after_first_def)

lemma startswith_image: "startswith (''image/'' @ sub) ''image/''"
  by (simp add: startswith_def)

text \<open>
  C5: \<open>extension_from_content_type\<close> looks up the part of the media type before the
  first \<open>;\<close>, stripped and in lower case, so a type with parameters gets the extension of
  its base type.  With an entry in the table the result is that entry; with none and a
  type \<open>image/subtype\<close> it is the dot and the subtype; otherwise, and for the empty
  string, it is empty.  The table is the one of the installation; it is taken to have no
  entry for the empty type.
\<close>

theorem extension_from_content_type_base_type:
  assumes "guess_extension [] = None"
  shows
  "extension_from_content_type guess_extension ct =
     extension_from_content_type guess_extension (before_first (CHR '';'') ct) \<and>
   (CHR '';'' \<notin> set base \<longrightarrow>
      extension_from_content_type guess_extension (base @ '';'' @ params) =
      extension_from_content_type guess_extension base) \<and>
   (guess_extension (main_type_of ct) = Some ext \<and> ext \<noteq> [] \<longrightarrow>
      extension_from_content_type guess_extension ct = ext) \<and>
   ((guess_extension (main_type_of ct) = None \<or> guess_extension (main_type_of ct) = Some []) \<and>
    main_type_of ct = ''image/'' @ subtype \<longrightarrow>
      extension_from_content_type guess_extension ct = ''.'' @ subtype) \<and>
   ((guess_extension (main_type_of ct) = None \<or> guess_extension (main_type_of ct) = Some []) \<and>
    \<not> startswith (main_type_of ct) ''image/'' \<longrightarrow>
      extension_from_content_type guess_extension ct = []) \<and>
   extension_from_content_type guess_extension [] = []"
proof (intro conjI impI)
  show "extension_from_content_type guess_extension ct =
     extension_from_content_type guess_extension (before_first (CHR '';'') ct)"
    using assms by (rule extension_ignores_parameters)
  show "extension_from_content_type guess_extension (base @ '';'' @ params) =
      extension_from_content_type guess_extension base"
    if "CHR '';'' \<notin> set base"
  proof -
    have "before_first (CHR '';'') (base @ '';'' @ params) = base"
      using that by (simp add: before_first_append)
    then show ?thesis
      using extension_ignores_parameters [of guess_extension "base @ '';'' @ params", OF assms] by simp
  qed
  show "extension_from_content_type guess_extension ct = ext"
    if "guess_extension (main_type_of ct) = Some ext \<and> ext \<noteq> []"
    using that by (cases ext) (simp_all add: extension_no_type [of guess_extension, OF assms])
  show "extension_from_content_type guess_extension ct = ''.'' @ subtype"
    if "(guess_extension (main_type_of ct) = None \<or> guess_extension (main_type_of ct) = Some []) \<and>
        main_type_of ct = ''image/'' @ subtype"
  proof -
    note m = that [THEN conjunct2]
    note that [THEN conjunct1]
    then have "extension_from_content_type guess_extension ct =
        (if startswith (main_type_of ct) ''image/''
         then ''.'' @ after_first (CHR ''/'') (main_type_of ct) else [])"
      by (auto simp: extension_no_type [of guess_extension, OF assms])
    then show ?thesis
      by (simp only: m startswith_image after_first_image if_True)
  qed
  show "extension_from_content_type guess_extension ct = []"
    if "(guess_extension (main_type_of ct) = None \<or> guess_extension (main_type_of ct) = Some []) \<and>
        \<not> startswith (main_type_of ct) ''image/''"
    using that by (auto simp: extension_no_type [of guess_extension, OF assms])
  show "extension_from_content_type guess_extension [] = []"
    by (simp add: extension_from_content_type_def)
qed

lemma sample_types_values:
  "sample_types [] = None" "sample_types ''image/png'' = Some ''.png''"
  "sample_types ''image/jpeg'' = Some ''.jpg''" "sample_types ''image/x-foo'' = None"
  "sample_types ''text/plain'' = None"
  by (simp_all add: sample_types_def)

lemma main_type_of_samples:
  "main_type_of ''image/png'' = ''image/png''"
  "main_type_of '' Image/X-Foo '' = ''image/x-foo''"
  "main_type_of ''text/plain'' = ''text/plain''"
  by (simp_all add: main_type_of_def before_first_def py_strip_ws_def py_strip_def
      py_rstrip_def py_lstrip_def whitespace_def py_lower_def lower_char_def
      upper_letters_def lower_letters_def)

theorem extension_from_content_type_base_type_witness:
  "sample_types [] = None \<and>
   extension_from_content_type sample_types ''image/png; charset=binary'' = ''.png'' \<and>
   extension_from_content_type sample_types ''image/png'' = ''.png'' \<and>
   extension_from_content_type sample_types '' Image/X-Foo '' = ''.x-foo'' \<and>
   extension_from_content_type sample_types ''text/plain'' = [] \<and>
   extension_from_content_type sample_types [] = []"
proof -
  note n = sample_types_values(1)
  note t = extension_from_content_type_base_type [where guess_extension = sample_types, OF n]
  have png: "extension_from_content_type sample_types ''image/png'' = ''.png''"
    using t [where ct = "''image/png''" and ext = "''.png''", THEN conjunct2, THEN conjunct2, THEN conjunct1]
    by (simp add: main_type_of_samples sample_types_values)
  have "extension_from_content_type sample_types (''image/png'' @ '';'' @ '' charset=binary'') =
        extension_from_content_type sample_types ''image/png''"
    using t [where base = "''image/png''" and params = "'' charset=binary''", THEN conjunct2, THEN conjunct1]
    by simp
  with png have par: "extension_from_content_type sample_types ''image/png; charset=binary'' = ''.png''"
    by simp
  have foo: "extension_from_content_type sample_types '' Image/X-Foo '' = ''.x-foo''"
    using t [where ct = "'' Image/X-Foo ''" and subtype = "''x-foo''",
        THEN conjunct2, THEN conjunct2, THEN conjunct2, THEN conjunct1]
    by (simp add: main_type_of_samples sample_types_values)
  have pln: "extension_from_content_type sample_types ''text/plain'' = []"
    using t [of "''text/plain''", THEN conjunct2, THEN conjunct2, THEN conjunct2,
        THEN conjunct2, THEN conjunct1]
    by (simp add: main_type_of_samples sample_types_values startswith_def)
  have emp: "extension_from_content_type sample_types [] = []"
    using t [THEN conjunct2, THEN conjunct2, THEN conjunct2, THEN conjunct2, THEN conjunct2] .
  from n par png foo pln emp show ?thesis by (intro conjI)
qed

section \<open>The HEAD probe\<close>

lemma head_probe_exception: "is_Exception e \<Longrightarrow> head_probe table (Inl e) = Inr []"
  by (simp add: head_probe_def)

lemma head_probe_error_status:
  "400 \<le> status_code head \<Longrightarrow> status_code head < 600 \<Longrightarrow> head_probe table (Inr head) = Inr []"
  by (simp add: head_probe_def raise_for_status_def)

lemma head_probe_response: "\<exists>chosen_ext. head_probe table (Inr head) = Inr chosen_ext"
  by (simp add: head_probe_def raise_for_status_def)

lemma resolve_filename_probe:
  assumes "head_probe (types_table env) (head_of env url) = Inr chosen_ext"
  shows "resolve_filename env url =
     (case filename_from_url (host_check env) url of
        Inl e' \<Rightarrow> Inl e'
      | Inr filename \<Rightarrow> Inr (choose_filename filename chosen_ext (uuid4_hex env)))"
  using assms by (simp add: resolve_filename_def split: sum.splits)

lemma main_saving_to:
  assumes "py_strip_ws (typed_url env) = url" "url \<noteq> []" "makedirs_error env = None"
    "resolve_filename env url = Inr name"
  shows "take 2 (snd (snd (main env fs))) = [Banner, Saving_to (unique_filepath fs FETCH_DIR name)]"
proof -
  obtain r fs' printed where
    dl: "download_image (get_of env) url fs (unique_filepath fs FETCH_DIR name) = (r, fs', printed)"
    by (cases "download_image (get_of env) url fs (unique_filepath fs FETCH_DIR name)")
  show ?thesis
    using assms
    by (simp add: main_def Let_def dl outer_handler_def split: option.splits sum.splits)
qed

text \<open>
  The interrupt of the user is no \<open>Exception\<close>: it passes the handler of the probe and
  the outermost handler of \<open>main\<close> prints the farewell.
\<close>

lemma head_probe_interrupt: "head_probe table (Inl KeyboardInterrupt) = Inl KeyboardInterrupt"
  by (simp add: head_probe_def)

lemma main_interrupt_during_probe:
  assumes "py_strip_ws (typed_url env) = url" "url \<noteq> []" "makedirs_error env = None"
    "filename_from_url (host_check env) url = Inr filename" "head_of env url = Inl KeyboardInterrupt"
  shows "main env fs = (None, fs, [Banner, Interrupted])"
  using assms
  by (simp add: main_def Let_def resolve_filename_def head_probe_interrupt outer_handler_def)

text \<open>
  C9: the probe never stops \<open>main\<close>.  For a response, and for an exception of any
  subclass of \<open>Exception\<close> raised by the HEAD request, it hands \<open>main\<close> an extension.
  Such an exception, and an error status that \<open>raise_for_status\<close> turns into one, give
  the empty extension: the file name is then the one composed without a content type, and
  \<open>main\<close> reaches the line that announces the output path.
\<close>

theorem head_probe_failure_absorbed:
  "(is_Exception e \<longrightarrow> head_probe table (Inl e) = Inr []) \<and>
   (400 \<le> status_code head \<and> status_code head < 600 \<longrightarrow> head_probe table (Inr head) = Inr []) \<and>
   ((case head_result of Inl e' \<Rightarrow> is_Exception e' | Inr h \<Rightarrow> True) \<longrightarrow>
      (\<exists>chosen_ext. head_probe table head_result = Inr chosen_ext)) \<and>
   (head_of env url = Inl e \<and> is_Exception e \<longrightarrow>
      resolve_filename env url =
        (case filename_from_url (host_check env) url of
           Inl e' \<Rightarrow> Inl e'
         | Inr filename \<Rightarrow> Inr (choose_filename filename [] (uuid4_hex env)))) \<and>
   (head_of env url = Inl e \<and> is_Exception e \<and>
    py_strip_ws (typed_url env) = url \<and> url \<noteq> [] \<and> makedirs_error env = None \<and>
    filename_from_url (host_check env) url = Inr filename \<longrightarrow>
      take 2 (snd (snd (main env fs))) =
        [Banner, Saving_to (unique_filepath fs FETCH_DIR
                   (choose_filename filename [] (uuid4_hex env)))])"
proof (intro conjI impI)
  show "head_probe table (Inl e) = Inr []" if "is_Exception e"
    using that by (rule head_probe_exception)
  show "head_probe table (Inr head) = Inr []"
    if "400 \<le> status_code head \<and> status_code head < 600"
    using that by (simp add: head_probe_error_status)
  show "\<exists>chosen_ext. head_probe table head_result = Inr chosen_ext"
    if "case head_result of Inl e' \<Rightarrow> is_Exception e' | Inr h \<Rightarrow> True"
  proof (cases head_result)
    case (Inl e')
    with that have "is_Exception e'" by simp
    then have "head_probe table (Inl e') = Inr []" by (rule head_probe_exception)
    with Inl show ?thesis by simp
  next
    case (Inr h)
    with head_probe_response [of table h] show ?thesis by simp
  qed
  show "resolve_filename env url =
        (case filename_from_url (host_check env) url of
           Inl e' \<Rightarrow> Inl e'
         | Inr filename \<Rightarrow> Inr (choose_filename filename [] (uuid4_hex env)))"
    if "head_of env url = Inl e \<and> is_Exception e"
  proof -
    from that have "head_probe (types_table env) (head_of env url) = Inr []"
      by (simp add: head_probe_exception)
    then show ?thesis by (rule resolve_filename_probe)
  qed
  show "take 2 (snd (snd (main env fs))) =
        [Banner, Saving_to (unique_filepath fs FETCH_DIR
                   (choose_filename filename [] (uuid4_hex env)))]"
    if h: "head_of env url = Inl e \<and> is_Exception e \<and>
      py_strip_ws (typed_url env) = url \<and> url \<noteq> [] \<and> makedirs_error env = None \<and>
      filename_from_url (host_check env) url = Inr filename"
  proof -
    from h have "head_probe (types_table env) (head_of env url) = Inr []"
      by (simp add: head_probe_exception)
    then have "resolve_filename env url =
        (case filename_from_url (host_check env) url of
           Inl e' \<Rightarrow> Inl e'
         | Inr filename \<Rightarrow> Inr (choose_filename filename [] (uuid4_hex env)))"
      by (rule resolve_filename_probe)
    with h have r: "resolve_filename env url = Inr (choose_filename filename [] (uuid4_hex env))"
      by simp
    from h have "py_strip_ws (typed_url env) = url" "url \<noteq> []" "makedirs_error env = None"
      by simp_all
    then show ?thesis using r by (rule main_saving_to)
  qed
qed

theorem head_probe_failure_absorbed_witness:
  "is_Exception ConnectionError \<and>
   head_probe sample_types (Inl ConnectionError) = Inr [] \<and>
   is_Exception (HTTPError 405) \<and>
   head_probe sample_types
     (Inr \<lparr>status_code = 405, content_type = Some ''text/html'', body = [], body_error = None\<rparr>)
     = Inr []"
proof -
  let ?head = "\<lparr>status_code = 405, content_type = Some ''text/html'', body = [], body_error = None\<rparr>"
  have a: "is_Exception ConnectionError" by simp
  have b: "is_Exception (HTTPError 405)" by simp
  have s: "400 \<le> status_code ?head \<and> status_code ?head < 600" by simp
  note t = head_probe_failure_absorbed [of ConnectionError sample_types ?head]
  from t [THEN conjunct1, THEN mp, OF a] t [THEN conjunct2, THEN conjunct1, THEN mp, OF s] a b
  show ?thesis by (intro conjI)
qed

section \<open>\<open>filename_from_url\<close>: the final path segment\<close>

lemma rfind_from_absent: "c \<notin> set s \<Longrightarrow> rfind_from c s i found = found"
  by (induction s arbitrary: i found) auto

lemma rfind_from_present:
  "c \<in> set s \<Longrightarrow>
   rfind_from c s i found = i + int (length s) - 1 - int (length (takeWhile (\<lambda>x. x \<noteq> c) (rev s)))"
proof (induction s arbitrary: i found)
  case Nil
  then show ?case by simp
next
  case (Cons x xs)
  show ?case
  proof (cases "c \<in> set xs")
    case True
    then have "takeWhile (\<lambda>x. x \<noteq> c) (rev xs @ [x]) = takeWhile (\<lambda>x. x \<noteq> c) (rev xs)"
      by (intro takeWhile_append1 [where x = c]) simp_all
    with Cons.IH [OF True] show ?thesis by simp
  next
    case False
    with Cons.prems have xc: "x = c" by simp
    from False have "c \<notin> set (rev xs)" by simp
    then have "takeWhile (\<lambda>x. x \<noteq> c) (rev xs @ [c]) = rev xs"
      by (rule before_first_append [unfolded before_first_def])
    with False xc show ?thesis
      by (simp add: rfind_from_absent)
  qed
qed

lemma takeWhile_all: "\<forall>x\<in>set xs. P x \<Longrightarrow> takeWhile P xs = xs"
  by simp

lemma basename_takeWhile: "basename p = rev (takeWhile (\<lambda>c. c \<noteq> CHR ''/'') (rev p))"
proof (cases "CHR ''/'' \<in> set p")
  case False
  then have "\<forall>c\<in>set (rev p). c \<noteq> CHR ''/''"
    by auto
  then have tw: "takeWhile (\<lambda>c. c \<noteq> CHR ''/'') (rev p) = rev p"
    by (rule takeWhile_all)
  have "basename p = p"
    using False by (simp add: basename_def py_rfind_def rfind_from_absent)
  then show ?thesis
    by (simp only: tw rev_rev_ident)
next
  case True
  let ?t = "takeWhile (\<lambda>c. c \<noteq> CHR ''/'') (rev p)"
  have le: "length ?t \<le> length p"
    using length_takeWhile_le [of "\<lambda>c. c \<noteq> CHR ''/''" "rev p"] by simp
  have "basename p = drop (length p - length ?t) p"
    using True le by (simp add: basename_def py_rfind_def rfind_from_present nat_diff_distrib')
  also have "\<dots> = rev (take (length ?t) (rev p))"
    using le by (simp add: take_rev)
  also have "take (length ?t) (rev p) = ?t"
    by (metis append_eq_conv_conj takeWhile_dropWhile_id)
  finally show ?thesis .
qed

lemma basename_no_slash: "CHR ''/'' \<notin> set (basename p)"
proof -
  have "\<forall>c\<in>set (takeWhile (\<lambda>c. c \<noteq> CHR ''/'') (rev p)). c \<noteq> CHR ''/''"
    by (auto dest: set_takeWhileD)
  then show ?thesis
    by (auto simp: basename_takeWhile)
qed

lemma basename_split:
  "\<exists>dir. p = dir @ basename p \<and> (dir = [] \<or> last dir = CHR ''/'')"
proof -
  let ?P = "\<lambda>c. c \<noteq> CHR ''/''"
  let ?d = "dropWhile ?P (rev p)"
  have "rev (takeWhile ?P (rev p) @ ?d) = p"
    by (simp only: takeWhile_dropWhile_id rev_rev_ident)
  then have "rev ?d @ rev (takeWhile ?P (rev p)) = p"
    by (simp only: rev_append)
  then have p: "p = rev ?d @ basename p"
    by (simp only: basename_takeWhile)
  have "rev ?d = [] \<or> last (rev ?d) = CHR ''/''"
  proof (cases "?d = []")
    case True
    then show ?thesis by simp
  next
    case False
    then have "\<not> ?P (hd ?d)" by (rule dropWhile_hd)
    with False show ?thesis by (simp add: last_rev)
  qed
  with p show ?thesis by blast
qed

lemma basename_empty: "basename p = [] \<longleftrightarrow> p = [] \<or> last p = CHR ''/''"
proof -
  have "basename p = [] \<longleftrightarrow> takeWhile (\<lambda>c. c \<noteq> CHR ''/'') (rev p) = []"
    by (simp add: basename_takeWhile)
  also have "\<dots> \<longleftrightarrow> rev p = [] \<or> hd (rev p) = CHR ''/''"
    by (simp add: takeWhile_eq_Nil_iff)
  also have "\<dots> \<longleftrightarrow> p = [] \<or> last p = CHR ''/''"
    by (cases "p = []") (simp_all add: hd_rev)
  finally show ?thesis .
qed

lemma dropWhile_append_stop: "\<not> P y \<Longrightarrow> dropWhile P (xs @ y # ys) = dropWhile P xs @ y # ys"
  by (induction xs) auto

lemma takeWhile_append_stop: "\<not> P y \<Longrightarrow> takeWhile P (xs @ y # ys) = takeWhile P xs"
  by (induction xs) auto

lemma before_first_absent: "c \<notin> set s \<Longrightarrow> before_first c s = s"
  by (auto simp: before_first_def)

lemma before_first_shorter: "c \<in> set s \<Longrightarrow> length (before_first c s) < length s"
  by (induction s) (auto simp: before_first_def)

lemma before_first_other:
  "c \<notin> set s \<Longrightarrow> d \<noteq> c \<Longrightarrow> before_first c (s @ d # t) = s @ d # before_first c t"
  by (induction s) (auto simp: before_first_def)

lemma split_scheme_subset: "set (snd (split_scheme u)) \<subseteq> set u"
  by (auto simp: split_scheme_def Let_def dest: in_set_dropD)

lemma split_scheme_query:
  assumes "CHR ''?'' \<notin> set u"
  shows "split_scheme (u @ CHR ''?'' # q) = (fst (split_scheme u), snd (split_scheme u) @ CHR ''?'' # q)"
proof (cases "CHR '':'' \<in> set u")
  case True
  then have bf: "before_first (CHR '':'') (u @ CHR ''?'' # q) = before_first (CHR '':'') u"
    unfolding before_first_def by (intro takeWhile_append1 [where x = "CHR '':''"]) simp_all
  from True have ne: "u \<noteq> []" by auto
  from True have "length (before_first (CHR '':'') u) < length u"
    by (rule before_first_shorter)
  then have dr: "drop (Suc (length (before_first (CHR '':'') u))) (u @ CHR ''?'' # q) =
      drop (Suc (length (before_first (CHR '':'') u))) u @ CHR ''?'' # q"
    by simp
  from \<open>length (before_first (CHR '':'') u) < length u\<close>
  have z: "Suc (length (before_first (CHR '':'') u)) - length u = 0"
    by simp
  from True ne show ?thesis
    by (simp add: split_scheme_def Let_def bf z)
next
  case False
  then have su: "split_scheme u = ([], u)"
    by (simp add: split_scheme_def Let_def)
  have "before_first (CHR '':'') (u @ CHR ''?'' # q) = u @ CHR ''?'' # before_first (CHR '':'') q"
    using False by (intro before_first_other) simp_all
  then have "\<not> list_all (\<lambda>c. c \<in> set scheme_chars) (before_first (CHR '':'') (u @ CHR ''?'' # q))"
    by (simp add: scheme_chars_def)
  then have "split_scheme (u @ CHR ''?'' # q) = ([], u @ CHR ''?'' # q)"
    by (simp add: split_scheme_def Let_def)
  with su show ?thesis by simp
qed

lemma take2_query:
  "(take 2 (r @ CHR ''?'' # q) = ''//'') = (take 2 r = ''//'')"
proof (cases r)
  case Nil
  then show ?thesis by simp
next
  case (Cons a r')
  then show ?thesis by (cases r') simp_all
qed

lemma splitnetloc_query:
  assumes "take 2 r = ''//''"
  shows "splitnetloc (r @ CHR ''?'' # q) = (fst (splitnetloc r), snd (splitnetloc r) @ CHR ''?'' # q)"
proof -
  from assms have "2 \<le> length r"
    by (cases r; cases "tl r") auto
  then have "drop 2 (r @ CHR ''?'' # q) = drop 2 r @ CHR ''?'' # q"
    by simp
  then show ?thesis
    by (simp add: splitnetloc_def Let_def takeWhile_append_stop dropWhile_append_stop)
qed

lemma splitnetloc_subset: "set (snd (splitnetloc r)) \<subseteq> set r"
  by (auto simp: splitnetloc_def Let_def dest: set_dropWhileD in_set_dropD)

lemma split_netloc_subset: "set (snd (split_netloc r)) \<subseteq> set r"
  using splitnetloc_subset [of r] by (simp add: split_netloc_def)

lemma split_netloc_query:
  "split_netloc (r @ CHR ''?'' # q) = (fst (split_netloc r), snd (split_netloc r) @ CHR ''?'' # q)"
proof (cases "take 2 r = ''//''")
  case True
  then have "take 2 (r @ CHR ''?'' # q) = ''//''"
    by (simp only: take2_query)
  with True show ?thesis
    by (simp add: split_netloc_def splitnetloc_query [OF True])
next
  case False
  then have "take 2 (r @ CHR ''?'' # q) \<noteq> ''//''"
    by (simp only: take2_query) simp
  with False show ?thesis
    by (simp add: split_netloc_def)
qed

lemma strip_fragment_query_query:
  assumes "CHR ''?'' \<notin> set r" "CHR ''#'' \<notin> set r"
  shows "strip_fragment_query (r @ CHR ''?'' # q) = strip_fragment_query r"
proof -
  have "before_first (CHR ''#'') (r @ CHR ''?'' # q) = r @ CHR ''?'' # before_first (CHR ''#'') q"
    using assms(2) by (intro before_first_other) simp_all
  then have "strip_fragment_query (r @ CHR ''?'' # q) = r"
    using assms(1) by (simp add: strip_fragment_query_def before_first_append)
  moreover have "strip_fragment_query r = r"
    using assms by (simp add: strip_fragment_query_def before_first_absent)
  ultimately show ?thesis by simp
qed

lemma urlparse_path_query:
  assumes "CHR ''?'' \<notin> set u" "CHR ''#'' \<notin> set u"
  shows "urlparse_path hv (u @ ''?'' @ q) = urlparse_path hv u"
proof -
  let ?F = "filter (\<lambda>c. c \<notin> set [CHR 0x09, CHR 0x0D, CHR 0x0A])"
  let ?q2 = "?F q"
  have c0: "\<not> c0_control_or_space (CHR ''?'')"
    by (simp add: c0_control_or_space_def)
  have clean: "url_clean (u @ ''?'' @ q) = url_clean u @ CHR ''?'' # ?q2"
    using dropWhile_append_stop [of c0_control_or_space "CHR ''?''" u q, OF c0]
    by (simp add: url_clean_def)
  have u2: "CHR ''?'' \<notin> set (url_clean u)" "CHR ''#'' \<notin> set (url_clean u)"
    using assms by (auto simp: url_clean_def dest: set_dropWhileD)
  let ?r3 = "snd (split_scheme (url_clean u))"
  have ss: "split_scheme (url_clean u @ CHR ''?'' # ?q2) =
      (fst (split_scheme (url_clean u)), ?r3 @ CHR ''?'' # ?q2)"
    using u2(1) by (rule split_scheme_query)
  have r3: "CHR ''?'' \<notin> set ?r3" "CHR ''#'' \<notin> set ?r3"
    using u2 split_scheme_subset [of "url_clean u"] by auto
  let ?r4 = "snd (split_netloc ?r3)"
  have sn: "split_netloc (?r3 @ CHR ''?'' # ?q2) = (fst (split_netloc ?r3), ?r4 @ CHR ''?'' # ?q2)"
    by (rule split_netloc_query)
  have r4: "CHR ''?'' \<notin> set ?r4" "CHR ''#'' \<notin> set ?r4"
    using r3 split_netloc_subset [of ?r3] by auto
  have sq: "strip_fragment_query (?r4 @ CHR ''?'' # ?q2) = strip_fragment_query ?r4"
    using r4 by (rule strip_fragment_query_query)
  show ?thesis
    by (simp only: urlparse_path_def Let_def split_beta clean ss sn sq fst_conv snd_conv)
qed

lemmas url_defs =
  urlparse_path_def url_clean_def split_netloc_def strip_fragment_query_def strip_params_def
  Let_def c0_control_or_space_def split_scheme_def before_first_def ascii_alpha_def
  scheme_chars_def py_lower_def lower_char_def upper_letters_def lower_letters_def
  splitnetloc_def is_ascii_def uses_params_def splitparams_def

lemma urlparse_path_examples:
  "urlparse_path hv ''https://example.com/path/pic.png?x=1'' = Inr ''/path/pic.png''"
  "urlparse_path hv ''https://example.com/'' = Inr ''/''"
  "urlparse_path hv ''https://x/img'' = Inr ''/img''"
  "urlparse_path hv ''https://example.com/a%20b.png'' = Inr ''/a%20b.png''"
  by (simp_all add: url_defs)

lemma basename_examples:
  "basename ''/path/pic.png'' = ''pic.png''" "basename ''/'' = []" "basename ''/img'' = ''img''"
  "basename ''/a%20b.png'' = ''a%20b.png''"
  by (simp_all add: basename_def py_rfind_def)

lemmas sanitize_defs =
  sanitize_filename_def re_sub_unsafe_def safe_char_def py_strip_def py_rstrip_def py_lstrip_def

lemma sanitize_examples:
  "sanitize_filename ''pic.png'' = ''pic.png''" "sanitize_filename ''img'' = ''img''"
  "sanitize_filename ''a%20b.png'' = ''a_20b.png''" "sanitize_filename ''img.jpg'' = ''img.jpg''"
  by (simp_all add: sanitize_defs)

lemma filename_from_url_path:
  assumes "urlparse_path hv url = Inr path"
  shows "filename_from_url hv url =
     Inr (if basename path = [] then None else Some (sanitize_filename (basename path)))"
  using assms by (simp add: filename_from_url_def Let_def)

lemma filename_from_url_query:
  assumes "CHR ''?'' \<notin> set u" "CHR ''#'' \<notin> set u"
  shows "filename_from_url hv (u @ ''?'' @ q) = filename_from_url hv u"
  by (simp only: filename_from_url_def urlparse_path_query [OF assms])

lemma filename_from_url_examples:
  "filename_from_url hv ''https://example.com/path/pic.png?x=1'' = Inr (Some ''pic.png'')"
  "filename_from_url hv ''https://example.com/'' = Inr None"
  "filename_from_url hv ''https://x/img'' = Inr (Some ''img'')"
  "filename_from_url hv ''https://example.com/a%20b.png'' = Inr (Some ''a_20b.png'')"
  by (simp_all add: filename_from_url_path [OF urlparse_path_examples(1)]
      filename_from_url_path [OF urlparse_path_examples(2)]
      filename_from_url_path [OF urlparse_path_examples(3)]
      filename_from_url_path [OF urlparse_path_examples(4)]
      basename_examples sanitize_examples)

text \<open>
  C7, as the code has it: for every URL that \<open>urlparse\<close> accepts, \<open>filename_from_url\<close>
  takes the final segment of the URL's path, the part after the last \<open>/\<close>, and returns
  it sanitized; it returns none when that segment is empty, that is when the path is
  empty or ends in \<open>/\<close>.  The query string has no part in it.  For
  \<open>https://example.com/path/pic.png?x=1\<close> the result is \<open>pic.png\<close>, for
  \<open>https://example.com/\<close> it is none.
\<close>

theorem filename_from_url_sanitized_segment:
  "(urlparse_path hv url = Inr path \<longrightarrow>
      filename_from_url hv url =
        Inr (if basename path = [] then None else Some (sanitize_filename (basename path)))) \<and>
   CHR ''/'' \<notin> set (basename path) \<and>
   (\<exists>dir. path = dir @ basename path \<and> (dir = [] \<or> last dir = CHR ''/'')) \<and>
   (basename path = [] \<longleftrightarrow> path = [] \<or> last path = CHR ''/'') \<and>
   (CHR ''?'' \<notin> set u \<and> CHR ''#'' \<notin> set u \<longrightarrow>
      filename_from_url hv (u @ ''?'' @ query) = filename_from_url hv u) \<and>
   filename_from_url hv ''https://example.com/path/pic.png?x=1'' = Inr (Some ''pic.png'') \<and>
   filename_from_url hv ''https://example.com/'' = Inr None"
proof (intro conjI impI)
  show "filename_from_url hv url =
        Inr (if basename path = [] then None else Some (sanitize_filename (basename path)))"
    if "urlparse_path hv url = Inr path"
    using that by (rule filename_from_url_path)
  show "CHR ''/'' \<notin> set (basename path)"
    by (rule basename_no_slash)
  show "\<exists>dir. path = dir @ basename path \<and> (dir = [] \<or> last dir = CHR ''/'')"
    by (rule basename_split)
  show "basename path = [] \<longleftrightarrow> path = [] \<or> last path = CHR ''/''"
    by (rule basename_empty)
  show "filename_from_url hv (u @ ''?'' @ query) = filename_from_url hv u"
    if "CHR ''?'' \<notin> set u \<and> CHR ''#'' \<notin> set u"
  proof -
    from that have "CHR ''?'' \<notin> set u" "CHR ''#'' \<notin> set u" by simp_all
    then show ?thesis by (rule filename_from_url_query)
  qed
  show "filename_from_url hv ''https://example.com/path/pic.png?x=1'' = Inr (Some ''pic.png'')"
    by (rule filename_from_url_examples)
  show "filename_from_url hv ''https://example.com/'' = Inr None"
    by (rule filename_from_url_examples)
qed

theorem filename_from_url_sanitized_segment_witness:
  "urlparse_path any_host ''https://x/img'' = Inr ''/img'' \<and>
   filename_from_url any_host ''https://x/img'' = Inr (Some ''img'') \<and>
   CHR ''?'' \<notin> set ''https://x/img'' \<and> CHR ''#'' \<notin> set ''https://x/img'' \<and>
   filename_from_url any_host ''https://x/img?size=2'' = Inr (Some ''img'')"
proof -
  note t = filename_from_url_sanitized_segment
    [of any_host "''https://x/img''" "''/img''" "''https://x/img''" "''size=2''"]
  have p: "urlparse_path any_host ''https://x/img'' = Inr ''/img''"
    by (rule urlparse_path_examples)
  have a: "filename_from_url any_host ''https://x/img'' = Inr (Some ''img'')"
    using t [THEN conjunct1, THEN mp, OF p]
    by (simp add: basename_examples sanitize_examples)
  have h: "CHR ''?'' \<notin> set ''https://x/img'' \<and> CHR ''#'' \<notin> set ''https://x/img''"
    by simp
  have "filename_from_url any_host (''https://x/img'' @ ''?'' @ ''size=2'') =
        filename_from_url any_host ''https://x/img''"
    using t [THEN conjunct2, THEN conjunct2, THEN conjunct2, THEN conjunct2, THEN conjunct1,
        THEN mp, OF h] .
  with a have b: "filename_from_url any_host ''https://x/img?size=2'' = Inr (Some ''img'')"
    by simp
  from p a h b show ?thesis by (intro conjI) simp_all
qed

text \<open>
  The claim as stated, that the final path segment itself is returned, fails: the final
  segment of \<open>https://example.com/a%20b.png\<close> is \<open>a%20b.png\<close>, and the
  result is \<open>a_20b.png\<close>.
\<close>

theorem filename_from_url_segment_counterexample:
  "urlparse_path any_host ''https://example.com/a%20b.png'' = Inr ''/a%20b.png'' \<and>
   basename ''/a%20b.png'' = ''a%20b.png'' \<and>
   filename_from_url any_host ''https://example.com/a%20b.png'' = Inr (Some ''a_20b.png'')"
  by (simp add: urlparse_path_examples basename_examples filename_from_url_examples)

section \<open>The composition of the file name\<close>






lemma main_type_of_jpeg: "main_type_of ''image/jpeg'' = ''image/jpeg''"
  by (simp add: main_type_of_def before_first_def py_strip_ws_def py_strip_def
      py_rstrip_def py_lstrip_def whitespace_def py_lower_def lower_char_def
      upper_letters_def lower_letters_def)

lemma head_probe_jpeg:
  assumes "table ''image/jpeg'' = Some ''.jpg''" "status_code head = 200"
    "content_type head = Some ''image/jpeg''"
  shows "head_probe table (Inr head) = Inr ''.jpg''"
  using assms
  by (simp add: head_probe_def raise_for_status_def header_content_type_def
      extension_from_content_type_def main_type_of_jpeg)

lemma unique_filepath_img_jpg:
  assumes "\<not> path_exists fs ''Fetched_Images/img.jpg''"
  shows "unique_filepath fs FETCH_DIR ''img.jpg'' = ''Fetched_Images/img.jpg''"
proof -
  have j: "path_join FETCH_DIR ''img.jpg'' = ''Fetched_Images/img.jpg''"
    by (simp add: path_join_def FETCH_DIR_def startswith_def endswith_def)
  with assms have "\<not> path_exists fs (path_join FETCH_DIR ''img.jpg'')"
    by simp
  then have "unique_filepath fs FETCH_DIR ''img.jpg'' = path_join FETCH_DIR ''img.jpg''"
    by (rule unique_filepath_free)
  with j show ?thesis by simp
qed

lemma resolve_filename_img_jpg:
  assumes "types_table env ''image/jpeg'' = Some ''.jpg''" "head_of env ''https://x/img'' = Inr head"
    "status_code head = 200" "content_type head = Some ''image/jpeg''"
  shows "resolve_filename env ''https://x/img'' = Inr ''img.jpg''"
proof -
  have "head_probe (types_table env) (Inr head) = Inr ''.jpg''"
    using assms(1,3,4) by (rule head_probe_jpeg)
  with assms(2) have "head_probe (types_table env) (head_of env ''https://x/img'') = Inr ''.jpg''"
    by simp
  then show ?thesis
    by (simp add: resolve_filename_def filename_from_url_examples choose_filename_def
        sanitize_examples)
qed













section \<open>A run that meets status 404\<close>

lemma sample_inputs:
  "py_strip_ws ''https://x/img'' = ''https://x/img''" "py_lower (py_strip_ws ''y'') = ''y''"
  by (simp_all add: py_strip_ws_def py_strip_def py_rstrip_def py_lstrip_def whitespace_def
      py_lower_def lower_char_def upper_letters_def lower_letters_def)

theorem http_error_status_leaves_no_file_witness:
  "download_image
     (always_respond \<lparr>status_code = 404, content_type = None, body = [], body_error = None\<rparr>)
     ''https://x/img'' (fs_of [''Fetched_Images/old.png'']) ''Fetched_Images/img'' =
     (Some (HTTPError 404), fs_of [''Fetched_Images/old.png''], []) \<and>
   handle_download_error (HTTPError 404) = Inr (Http_error_msg 404) \<and>
   main (sample_env\<lparr>get_of :=
           always_respond \<lparr>status_code = 404, content_type = None, body = [], body_error = None\<rparr>\<rparr>)
     (fs_of [''Fetched_Images/old.png'']) =
     (None, fs_of [''Fetched_Images/old.png''],
      [Banner, Saving_to ''Fetched_Images/img.jpg'', Http_error_msg 404])"
proof -
  let ?resp = "\<lparr>status_code = 404, content_type = None, body = [], body_error = None\<rparr>"
  let ?head = "\<lparr>status_code = 200, content_type = Some ''image/jpeg'',
                 body = [], body_error = None\<rparr>"
  let ?env = "sample_env\<lparr>get_of := always_respond ?resp\<rparr>"
  let ?fs = "fs_of [''Fetched_Images/old.png'']"
  note t = http_error_status_leaves_no_file [of "always_respond ?resp" "''https://x/img''" ?resp
      ?fs "''Fetched_Images/img''" ?env "''img.jpg''"]
  have h: "always_respond ?resp ''https://x/img'' = Inr ?resp \<and>
      400 \<le> status_code ?resp \<and> status_code ?resp < 600"
    by (simp add: always_respond_def)
  have r: "resolve_filename ?env ''https://x/img'' = Inr ''img.jpg''"
    by (rule resolve_filename_img_jpg [where head = ?head])
       (simp_all add: sample_env_def sample_types_def always_respond_def)
  have g: "py_strip_ws (typed_url ?env) = ''https://x/img'' \<and> ''https://x/img'' \<noteq> [] \<and>
      makedirs_error ?env = None \<and> resolve_filename ?env ''https://x/img'' = Inr ''img.jpg'' \<and>
      py_lower (py_strip_ws (typed_confirm ?env)) \<noteq> ''n'' \<and>
      get_of ?env ''https://x/img'' = Inr ?resp \<and>
      400 \<le> status_code ?resp \<and> status_code ?resp < 600"
    using r by (simp add: sample_env_def sample_inputs always_respond_def)
  have n: "\<not> path_exists ?fs ''Fetched_Images/img.jpg''"
    by (simp add: path_exists_def fs_of_def)
  have "main ?env ?fs =
      (None, ?fs, [Banner, Saving_to (unique_filepath ?fs FETCH_DIR ''img.jpg''),
                   Http_error_msg (status_code ?resp)])"
    using t [THEN conjunct2, THEN conjunct2, THEN mp, OF g] .
  then have m: "main ?env ?fs =
      (None, ?fs, [Banner, Saving_to ''Fetched_Images/img.jpg'', Http_error_msg 404])"
    by (simp add: unique_filepath_img_jpg [OF n])
  from t [THEN conjunct1, THEN mp, OF h] m show ?thesis by simp
qed

end
